theory Spec2Isabelle
  imports Complex_Main "HOL-Library.AList"
begin

chapter \<open>VideoTranslator: checkpoints, retries, translation cache and failover\<close>

text \<open>
  A shallow embedding of the orchestration core of the VideoTranslator application:
  \<^item> \<^verbatim>\<open>app/utils/checkpoint.py\<close> (job identity, checkpoint store),
  \<^item> \<^verbatim>\<open>app/utils/recovery_manager.py\<close> (retry decorator and back-off),
  \<^item> \<^verbatim>\<open>app/core/translation.py\<close> and \<^verbatim>\<open>app/core/translation_original.py\<close>
    (two-tier cache, provider failover, batch translation),
  \<^item> \<^verbatim>\<open>app/gui/improved_processing.py\<close> (the four-stage pipeline with resume).

  Conventions. Python exceptions are values of the type \<open>exn\<close>; a call that may raise
  returns \<open>exn + 'a\<close> with \<open>Inl\<close> for the raised exception. Mutable objects (the file
  system, the cache) are passed in and returned. Python \<open>float\<close>s that are only stored
  and compared (time stamps, confidences) are \<open>real\<close>s; the floats of the back-off
  computation are a type parameter with the operations of the interpreter taken as
  given. Strings are byte strings, in UTF-8. Library functions whose internals are not
  part of the repository (\<open>hashlib.md5\<close>, \<open>re.sub\<close>) are parameters of the functions that
  call them.
\<close>

section \<open>Python values and exceptions\<close>

datatype exn =
    JSONDecodeError
  | TypeError
  | OSError
  | IndexError
  | KeyError
  | ValueError
  | AttributeError
  | InterruptedError
  | UserFriendlyError string
  | ServiceUnavailableError
  | RetryableError
  | NonRetryableError
  | OverflowError
  | UnicodeDecodeError
  | UnicodeEncodeError
  | DatabaseError
  | RegexError
  | PyException string

text \<open>
  The values a stage payload is made of. \<open>PyPath\<close> is a \<open>pathlib.Path\<close>; \<open>PyObject\<close>
  stands for any object that \<open>json.dump\<close> cannot encode (a NumPy scalar, a tensor, ...).
\<close>

datatype pyval =
    PyNone
  | PyBool bool
  | PyNum real
  | PyStr string
  | PyPath string
  | PyList "pyval list"
  | PyDict "(string \<times> pyval) list"
  | PyObject

text \<open>\<open>str(n)\<close> for a non-negative Python \<open>int\<close>.\<close>

definition digit_char :: "nat \<Rightarrow> char" where
  "digit_char d = ''0123456789'' ! d"

fun str_nat :: "nat \<Rightarrow> string" where
  "str_nat n = (if n < 10 then [digit_char n] else str_nat (n div 10) @ [digit_char (n mod 10)])"

declare str_nat.simps [simp del]

text \<open>
  A modification time as \<open>os.stat\<close> reports it: a non-negative float that \<open>str\<close> prints
  in positional notation, \<open>1700000000.5\<close> or \<open>3.0\<close>. The record keeps the integer part
  and the digits printed after the point.
\<close>

record pyfloat =
  int_part :: nat
  frac_digits :: string

definition str_float :: "pyfloat \<Rightarrow> string" where
  "str_float f = str_nat (int_part f) @ ''.'' @ frac_digits f"

record stat_result =
  st_size :: nat
  st_mtime :: pyfloat

section \<open>The checkpoint store (\<^verbatim>\<open>app/utils/checkpoint.py\<close>)\<close>

subsection \<open>Data\<close>

text \<open>The dataclass \<open>ProcessingCheckpoint\<close>.\<close>

record ProcessingCheckpoint =
  video_path :: string
  video_hash :: string
  source_language :: string
  target_language :: string
  whisper_model :: string
  translation_provider :: string
  timestamp :: real
  completed_stages :: "string list"
  stage_data :: "(string \<times> pyval) list"
  version :: string

text \<open>
  What a file of the checkpoint directory holds, seen through \<open>json.load\<close> followed by
  \<open>ProcessingCheckpoint(**data)\<close>: bytes that are not UTF-8 (reading raises
  \<open>UnicodeDecodeError\<close>), text that is not JSON (\<open>json.load\<close> raises \<open>JSONDecodeError\<close>),
  JSON whose keys are not the fields of the dataclass (the constructor raises
  \<open>TypeError\<close>), or a record. Field values of a record that constructs have their
  declared types, as \<open>save_checkpoint\<close> writes them.
\<close>

datatype file_body = Undecodable | Garbled | Misshapen | Stored ProcessingCheckpoint

text \<open>
  The part of the operating system the checkpoint manager talks to. \<open>os_stat\<close> answers
  for the video files (\<open>os.path.exists\<close> is true exactly when \<open>os.stat\<close> succeeds),
  \<open>files\<close> are the files of the checkpoint directory, the three \<open>_error\<close> fields say
  for which path opening for reading, opening for writing and \<open>unlink\<close> raise, and
  \<open>clock\<close> is what \<open>time.time()\<close> returns during the operation.
\<close>

record fs =
  os_stat :: "string \<Rightarrow> exn + stat_result"
  files :: "string \<Rightarrow> file_body option"
  read_error :: "string \<Rightarrow> exn option"
  write_error :: "string \<Rightarrow> exn option"
  unlink_error :: "string \<Rightarrow> exn option"
  clock :: real

record CheckpointManager =
  project_dir :: string
  STAGES :: "string list"

definition CheckpointManager_init :: "string \<Rightarrow> CheckpointManager" where
  "CheckpointManager_init dir =
     \<lparr>project_dir = dir,
      STAGES = [''audio_extraction'', ''speech_recognition'', ''text_translation'',
                ''subtitle_generation'']\<rparr>"

subsection \<open>\<open>serialize_for_json\<close>\<close>

fun serialize_for_json :: "pyval \<Rightarrow> pyval" where
  "serialize_for_json (PyPath p) = PyStr p"
| "serialize_for_json (PyDict kvs) = PyDict (map (\<lambda>(k, v). (k, serialize_for_json v)) kvs)"
| "serialize_for_json (PyList xs) = PyList (map serialize_for_json xs)"
| "serialize_for_json v = v"

text \<open>Whether \<open>json.dump\<close> encodes a value; otherwise it raises \<open>TypeError\<close>.\<close>

fun json_encodable :: "pyval \<Rightarrow> bool" where
  "json_encodable PyObject = False"
| "json_encodable (PyPath p) = False"
| "json_encodable (PyDict kvs) = list_all (\<lambda>(k, v). json_encodable v) kvs"
| "json_encodable (PyList xs) = list_all json_encodable xs"
| "json_encodable v = True"

subsection \<open>\<open>_get_video_hash\<close> and \<open>_get_checkpoint_file\<close>\<close>

definition os_path_exists :: "fs \<Rightarrow> string \<Rightarrow> bool" where
  "os_path_exists env p = (case os_stat env p of Inl e \<Rightarrow> False | Inr st \<Rightarrow> True)"

text \<open>
  The three \<open>hasher.update\<close> calls feed the concatenation of their arguments to MD5.
  The \<open>except\<close> branch hashes the path alone.
\<close>

definition get_video_hash :: "(string \<Rightarrow> string) \<Rightarrow> fs \<Rightarrow> string \<Rightarrow> string" where
  "get_video_hash md5 env path =
     (case (if os_path_exists env path
            then (case os_stat env path of
                    Inl e \<Rightarrow> Inl e
                  | Inr st \<Rightarrow> Inr (md5 (path @ str_nat (st_size st) @ str_float (st_mtime st))))
            else Inr (md5 path)) of
        Inl e \<Rightarrow> md5 path
      | Inr h \<Rightarrow> h)"

definition get_checkpoint_file ::
  "(string \<Rightarrow> string) \<Rightarrow> CheckpointManager \<Rightarrow> fs \<Rightarrow> string \<Rightarrow> string" where
  "get_checkpoint_file md5 mgr env path =
     project_dir mgr @ ''/'' @ ''checkpoint_'' @ get_video_hash md5 env path @ ''.json''"

text \<open>A file system that knows one video file and nothing else.\<close>

definition one_video :: "string \<Rightarrow> stat_result \<Rightarrow> real \<Rightarrow> fs" where
  "one_video path st now =
     \<lparr>os_stat = (\<lambda>p. if p = path then Inr st else Inl OSError),
      files = (\<lambda>f. None),
      read_error = (\<lambda>f. None),
      write_error = (\<lambda>f. None),
      unlink_error = (\<lambda>f. None),
      clock = now\<rparr>"

subsection \<open>File primitives\<close>

text \<open>
  \<open>with open(checkpoint_file, 'r') as f: data = json.load(f)\<close> followed by
  \<open>ProcessingCheckpoint(**data)\<close>.
\<close>

definition read_checkpoint_file :: "fs \<Rightarrow> string \<Rightarrow> exn + ProcessingCheckpoint" where
  "read_checkpoint_file env f =
     (case read_error env f of
        Some e \<Rightarrow> Inl e
      | None \<Rightarrow>
         (case files env f of
            None \<Rightarrow> Inl OSError
          | Some Undecodable \<Rightarrow> Inl UnicodeDecodeError
          | Some Garbled \<Rightarrow> Inl JSONDecodeError
          | Some Misshapen \<Rightarrow> Inl TypeError
          | Some (Stored ck) \<Rightarrow> Inr ck))"

text \<open>\<open>checkpoint_file.unlink()\<close>: the raised exception, if any, and the file system left.\<close>

definition unlink :: "fs \<Rightarrow> string \<Rightarrow> exn option \<times> fs" where
  "unlink env f =
     (case unlink_error env f of
        Some e \<Rightarrow> (Some e, env)
      | None \<Rightarrow>
         (case files env f of
            None \<Rightarrow> (Some OSError, env)
          | Some b \<Rightarrow> (None, env\<lparr>files := (files env)(f := None)\<rparr>)))"

text \<open>
  \<open>with open(checkpoint_file, 'w') as f: json.dump(checkpoint_data, f, ...)\<close>. When
  \<open>open\<close> raises, nothing is written. \<open>json.dump\<close> writes the document piece by piece:
  when it meets a value it cannot encode it raises \<open>TypeError\<close> and leaves a truncated
  document behind.
\<close>

definition write_checkpoint_file :: "fs \<Rightarrow> string \<Rightarrow> ProcessingCheckpoint \<Rightarrow> exn option \<times> fs" where
  "write_checkpoint_file env f checkpoint_data =
     (case write_error env f of
        Some e \<Rightarrow> (Some e, env)
      | None \<Rightarrow>
         (if list_all (\<lambda>(k, v). json_encodable v) (stage_data checkpoint_data)
          then (None, env\<lparr>files := (files env)(f \<mapsto> Stored checkpoint_data)\<rparr>)
          else (Some TypeError, env\<lparr>files := (files env)(f \<mapsto> Garbled)\<rparr>)))"

subsection \<open>\<open>save_checkpoint\<close>\<close>

text \<open>\<open>kwargs.get(key, default)\<close>.\<close>

definition kwargs_get :: "(string \<times> string) list \<Rightarrow> string \<Rightarrow> string \<Rightarrow> string" where
  "kwargs_get kwargs key dflt = (case map_of kwargs key of None \<Rightarrow> dflt | Some v \<Rightarrow> v)"

text \<open>The \<open>ProcessingCheckpoint(...)\<close> that \<open>save_checkpoint\<close> builds when it starts afresh.\<close>

definition new_checkpoint ::
  "(string \<Rightarrow> string) \<Rightarrow> fs \<Rightarrow> string \<Rightarrow> (string \<times> string) list \<Rightarrow> ProcessingCheckpoint" where
  "new_checkpoint md5 env path kwargs =
     \<lparr>video_path = path,
      video_hash = get_video_hash md5 env path,
      source_language = kwargs_get kwargs ''source_language'' ''auto'',
      target_language = kwargs_get kwargs ''target_language'' ''zh-CN'',
      whisper_model = kwargs_get kwargs ''whisper_model'' ''base'',
      translation_provider = kwargs_get kwargs ''translation_provider'' ''openai'',
      timestamp = clock env,
      completed_stages = [],
      stage_data = [],
      version = ''1.0.0''\<rparr>"

text \<open>
  The first block inside the \<open>try\<close> of \<open>save_checkpoint\<close>: load the existing
  checkpoint or create a new one. The inner handler catches \<open>json.JSONDecodeError\<close>
  and \<open>TypeError\<close> only; an exception raised by its \<open>unlink\<close> leaves the \<open>try\<close>.
\<close>

definition existing_or_new_checkpoint ::
  "(string \<Rightarrow> string) \<Rightarrow> fs \<Rightarrow> string \<Rightarrow> string \<Rightarrow> (string \<times> string) list \<Rightarrow>
   (exn + ProcessingCheckpoint) \<times> fs" where
  "existing_or_new_checkpoint md5 env checkpoint_file path kwargs =
     (case files env checkpoint_file of
        Some b \<Rightarrow>
          (case read_checkpoint_file env checkpoint_file of
             Inr ck \<Rightarrow> (Inr ck, env)
           | Inl e \<Rightarrow>
              (if e = JSONDecodeError \<or> e = TypeError
               then (case unlink env checkpoint_file of
                       (Some e', env') \<Rightarrow> (Inl e', env')
                     | (None, env') \<Rightarrow> (Inr (new_checkpoint md5 env' path kwargs), env'))
               else (Inl e, env)))
      | None \<Rightarrow> (Inr (new_checkpoint md5 env path kwargs), env))"

text \<open>The statements inside the \<open>try\<close> of \<open>save_checkpoint\<close>.\<close>

definition save_checkpoint_try ::
  "(string \<Rightarrow> string) \<Rightarrow> CheckpointManager \<Rightarrow> fs \<Rightarrow> string \<Rightarrow> string \<Rightarrow> pyval \<Rightarrow>
   (string \<times> string) list \<Rightarrow> (exn + bool) \<times> fs" where
  "save_checkpoint_try md5 mgr env path stage payload kwargs =
     (let checkpoint_file = get_checkpoint_file md5 mgr env path in
      case existing_or_new_checkpoint md5 env checkpoint_file path kwargs of
        (Inl e, env1) \<Rightarrow> (Inl e, env1)
      | (Inr checkpoint, env1) \<Rightarrow>
          (let checkpoint1 = checkpoint
                 \<lparr>completed_stages :=
                    (if stage \<in> set (completed_stages checkpoint)
                     then completed_stages checkpoint
                     else completed_stages checkpoint @ [stage]),
                  stage_data := AList.update stage payload (stage_data checkpoint),
                  timestamp := clock env1\<rparr>;
               checkpoint_data = checkpoint1
                 \<lparr>stage_data := map (\<lambda>(k, v). (k, serialize_for_json v)) (stage_data checkpoint1)\<rparr>
           in case write_checkpoint_file env1 checkpoint_file checkpoint_data of
                (Some e, env2) \<Rightarrow> (Inl e, env2)
              | (None, env2) \<Rightarrow> (Inr True, env2)))"

text \<open>The whole method: \<open>except Exception\<close> turns whatever left the \<open>try\<close> into \<open>False\<close>.\<close>

definition save_checkpoint ::
  "(string \<Rightarrow> string) \<Rightarrow> CheckpointManager \<Rightarrow> fs \<Rightarrow> string \<Rightarrow> string \<Rightarrow> pyval \<Rightarrow>
   (string \<times> string) list \<Rightarrow> (exn + bool) \<times> fs" where
  "save_checkpoint md5 mgr env path stage payload kwargs =
     (case save_checkpoint_try md5 mgr env path stage payload kwargs of
        (Inl e, env') \<Rightarrow> (Inr False, env')
      | (Inr b, env') \<Rightarrow> (Inr b, env'))"

subsection \<open>\<open>_validate_checkpoint\<close> and \<open>load_checkpoint\<close>\<close>

text \<open>
  Nothing inside \<open>_validate_checkpoint\<close> raises on a typed record, so its own
  \<open>except Exception: return False\<close> has no case here.
\<close>

definition validate_checkpoint ::
  "(string \<Rightarrow> string) \<Rightarrow> fs \<Rightarrow> ProcessingCheckpoint \<Rightarrow> string \<Rightarrow> bool" where
  "validate_checkpoint md5 env checkpoint path =
     (if \<not> os_path_exists env path then False
      else if get_video_hash md5 env path \<noteq> video_hash checkpoint then False
      else if clock env - timestamp checkpoint > 7 * 24 * 3600 then False
      else True)"

definition load_checkpoint_try ::
  "(string \<Rightarrow> string) \<Rightarrow> CheckpointManager \<Rightarrow> fs \<Rightarrow> string \<Rightarrow>
   (exn + ProcessingCheckpoint option) \<times> fs" where
  "load_checkpoint_try md5 mgr env path =
     (let checkpoint_file = get_checkpoint_file md5 mgr env path in
      case files env checkpoint_file of
        None \<Rightarrow> (Inr None, env)
      | Some b \<Rightarrow>
         (case read_checkpoint_file env checkpoint_file of
            Inl e \<Rightarrow> (Inl e, env)
          | Inr checkpoint \<Rightarrow>
             (if \<not> validate_checkpoint md5 env checkpoint path then (Inr None, env)
              else (Inr (Some checkpoint), env))))"

text \<open>
  The two handlers: \<open>except json.JSONDecodeError\<close> removes the file (an exception of the
  removal is swallowed) and returns \<open>None\<close>; \<open>except Exception\<close> returns \<open>None\<close>.
\<close>

definition load_checkpoint ::
  "(string \<Rightarrow> string) \<Rightarrow> CheckpointManager \<Rightarrow> fs \<Rightarrow> string \<Rightarrow>
   (exn + ProcessingCheckpoint option) \<times> fs" where
  "load_checkpoint md5 mgr env path =
     (case load_checkpoint_try md5 mgr env path of
        (Inl e, env1) \<Rightarrow>
          (if e = JSONDecodeError
           then (let checkpoint_file = get_checkpoint_file md5 mgr env1 path in
                 case files env1 checkpoint_file of
                   None \<Rightarrow> (Inr None, env1)
                 | Some b \<Rightarrow> (Inr None, snd (unlink env1 checkpoint_file)))
           else (Inr None, env1))
      | (Inr r, env1) \<Rightarrow> (Inr r, env1))"

definition get_stage_data ::
  "(string \<Rightarrow> string) \<Rightarrow> CheckpointManager \<Rightarrow> fs \<Rightarrow> string \<Rightarrow> string \<Rightarrow>
   (exn + pyval option) \<times> fs" where
  "get_stage_data md5 mgr env path stage =
     (case load_checkpoint md5 mgr env path of
        (Inl e, env1) \<Rightarrow> (Inl e, env1)
      | (Inr None, env1) \<Rightarrow> (Inr None, env1)
      | (Inr (Some checkpoint), env1) \<Rightarrow> (Inr (map_of (stage_data checkpoint) stage), env1))"

subsection \<open>Concrete inputs used in the examples\<close>

text \<open>
  A digest for the closed examples: the identity function, which never collides. The
  general theorems hold for every digest function.
\<close>

definition plain_digest :: "string \<Rightarrow> string" where
  "plain_digest s = s"

definition ckpt_dir :: CheckpointManager where
  "ckpt_dir = CheckpointManager_init ''ckpt''"

text \<open>
  The scenario of \<^verbatim>\<open>tests/unit/test_checkpoint_fix.py\<close>: the path \<open>test_video.mp4\<close>
  names no file, the checkpoint directory is empty, and the test saves the stage
  \<open>audio_extraction\<close> with the payload below and the two keyword arguments.
\<close>

definition test_fs :: fs where
  "test_fs =
     \<lparr>os_stat = (\<lambda>p. Inl OSError),
      files = (\<lambda>f. None),
      read_error = (\<lambda>f. None),
      write_error = (\<lambda>f. None),
      unlink_error = (\<lambda>f. None),
      clock = 1000\<rparr>"

definition test_stage_data :: pyval where
  "test_stage_data =
     PyDict [(''audio_path'', PyPath ''/test/audio.wav''), (''duration'', PyNum 120.5),
             (''sample_rate'', PyNum 16000)]"

definition test_kwargs :: "(string \<times> string) list" where
  "test_kwargs = [(''source_language'', ''en''), (''target_language'', ''zh-CN'')]"

text \<open>The record that \<open>save_checkpoint\<close> writes in that scenario.\<close>

definition test_checkpoint :: ProcessingCheckpoint where
  "test_checkpoint =
     \<lparr>video_path = ''test_video.mp4'',
      video_hash = ''test_video.mp4'',
      source_language = ''en'',
      target_language = ''zh-CN'',
      whisper_model = ''base'',
      translation_provider = ''openai'',
      timestamp = 1000,
      completed_stages = [''audio_extraction''],
      stage_data = [(''audio_extraction'',
                     PyDict [(''audio_path'', PyStr ''/test/audio.wav''), (''duration'', PyNum 120.5),
                             (''sample_rate'', PyNum 16000)])],
      version = ''1.0.0''\<rparr>"

text \<open>
  The video \<open>a.mp4\<close> (2048 bytes, modified at 500.0) with a checkpoint written at time
  1000 by \<open>save_checkpoint\<close>, read back at time 2000.
\<close>

definition a_stat :: stat_result where
  "a_stat = \<lparr>st_size = 2048, st_mtime = \<lparr>int_part = 500, frac_digits = ''0''\<rparr>\<rparr>"

definition a_checkpoint :: ProcessingCheckpoint where
  "a_checkpoint =
     \<lparr>video_path = ''a.mp4'',
      video_hash = ''a.mp42048500.0'',
      source_language = ''auto'',
      target_language = ''zh-CN'',
      whisper_model = ''base'',
      translation_provider = ''openai'',
      timestamp = 1000,
      completed_stages = [''audio_extraction''],
      stage_data = [(''audio_extraction'', PyDict [(''audio_path'', PyStr ''x.wav'')])],
      version = ''1.0.0''\<rparr>"

definition a_fs :: "file_body option \<Rightarrow> fs" where
  "a_fs body =
     \<lparr>os_stat = (\<lambda>p. if p = ''a.mp4'' then Inr a_stat else Inl OSError),
      files = (\<lambda>f. if f = ''ckpt/checkpoint_a.mp42048500.0.json'' then body else None),
      read_error = (\<lambda>f. None),
      write_error = (\<lambda>f. None),
      unlink_error = (\<lambda>f. None),
      clock = 2000\<rparr>"

section \<open>Retry with back-off (\<^verbatim>\<open>app/utils/recovery_manager.py\<close>)\<close>

datatype RetryStrategy = IMMEDIATE | LINEAR_BACKOFF | EXPONENTIAL_BACKOFF | CUSTOM

text \<open>
  The delays are Python \<open>float\<close>s. Their type is the parameter \<open>'f\<close>, and what the
  interpreter does with them is taken as given: the double a literal denotes,
  \<open>x ** n\<close> for an \<open>int\<close> \<open>n\<close> (it raises \<open>OverflowError\<close> when the result leaves the range
  of the doubles), \<open>x * y\<close> (it rounds, and overflows to infinity without raising),
  \<open>x * n\<close> for an \<open>int\<close> \<open>n\<close> (it raises \<open>OverflowError\<close> when \<open>n\<close> has no double),
  \<open>x < y\<close>, and whether \<open>time.sleep(x)\<close> raises (\<open>ValueError\<close> for a negative number and
  for NaN, \<open>OverflowError\<close> for a number too large for the platform).
\<close>

record 'f float_ops =
  float_lit :: "real \<Rightarrow> 'f"
  float_pow :: "'f \<Rightarrow> nat \<Rightarrow> exn + 'f"
  float_mul :: "'f \<Rightarrow> 'f \<Rightarrow> 'f"
  float_mul_int :: "'f \<Rightarrow> nat \<Rightarrow> exn + 'f"
  float_less :: "'f \<Rightarrow> 'f \<Rightarrow> bool"
  sleep_raises :: "'f \<Rightarrow> exn option"

text \<open>\<open>min(a, b)\<close> on two floats: \<open>b\<close> when \<open>b < a\<close>, else \<open>a\<close>.\<close>

definition py_min :: "'f float_ops \<Rightarrow> 'f \<Rightarrow> 'f \<Rightarrow> 'f" where
  "py_min ops a b = (if float_less ops b a then b else a)"

text \<open>
  The dataclass \<open>RetryConfig\<close>. \<open>retry_on_exceptions\<close> is a tuple of exception classes,
  used only through \<open>isinstance\<close>: it is the predicate "is an instance of one of them".
  \<open>should_retry\<close> is the optional custom predicate.
\<close>

record 'f RetryConfig =
  max_attempts :: int
  strategy :: RetryStrategy
  base_delay :: 'f
  max_delay :: 'f
  backoff_factor :: 'f
  retry_on_exceptions :: "exn \<Rightarrow> bool"
  should_retry :: "(exn \<Rightarrow> bool) option"

text \<open>\<open>RetryConfig()\<close>: the defaults of the dataclass.\<close>

definition RetryConfig_default :: "'f float_ops \<Rightarrow> 'f RetryConfig" where
  "RetryConfig_default ops =
     \<lparr>max_attempts = 3,
      strategy = EXPONENTIAL_BACKOFF,
      base_delay = float_lit ops 1,
      max_delay = float_lit ops 60,
      backoff_factor = float_lit ops 2,
      retry_on_exceptions = (\<lambda>e. True),
      should_retry = None\<rparr>"

text \<open>
  What \<open>calculate_delay\<close> returns: the \<open>int\<close> 0 of the immediate strategy, or a float.
\<close>

datatype 'f delay = NoDelay | Delay 'f

text \<open>\<open>RetryManager.calculate_delay\<close>. The power is taken before the cap is applied.\<close>

definition calculate_delay :: "'f float_ops \<Rightarrow> 'f RetryConfig \<Rightarrow> nat \<Rightarrow> exn + 'f delay" where
  "calculate_delay ops config attempt =
     (if strategy config = IMMEDIATE then Inr NoDelay
      else (case (if strategy config = LINEAR_BACKOFF
                  then float_mul_int ops (base_delay config) attempt
                  else if strategy config = EXPONENTIAL_BACKOFF
                  then (case float_pow ops (backoff_factor config) attempt of
                          Inl e \<Rightarrow> Inl e
                        | Inr p \<Rightarrow> Inr (float_mul ops (base_delay config) p))
                  else Inr (base_delay config)) of
              Inl e \<Rightarrow> Inl e
            | Inr d \<Rightarrow> Inr (Delay (py_min ops d (max_delay config)))))"

text \<open>\<open>time.sleep(delay)\<close>: the exception it raises, if any.\<close>

definition time_sleep :: "'f float_ops \<Rightarrow> 'f delay \<Rightarrow> exn option" where
  "time_sleep ops d = (case d of NoDelay \<Rightarrow> None | Delay x \<Rightarrow> sleep_raises ops x)"

text \<open>\<open>RetryManager.should_retry\<close>; \<open>NonRetryableError\<close> has no subclass.\<close>

definition manager_should_retry :: "'f RetryConfig \<Rightarrow> exn \<Rightarrow> nat \<Rightarrow> bool" where
  "manager_should_retry config exception attempt =
     (if int attempt \<ge> max_attempts config then False
      else if exception = NonRetryableError then False
      else if \<not> retry_on_exceptions config exception then False
      else (case should_retry config of
              Some p \<Rightarrow> p exception
            | None \<Rightarrow> True))"

text \<open>One entry of \<open>retry_history\<close>, without its wall-clock time.\<close>

record attempt_record =
  attempt_no :: nat
  success :: bool
  exception :: "exn option"

text \<open>
  What one call of the wrapped function leaves behind: the value returned or the
  exception raised, how often the operation was called, the arguments of the
  \<open>time.sleep\<close> calls that returned, in order, and the history recorded.
\<close>

record ('f, 'a) retry_run =
  outcome :: "exn + 'a"
  calls :: nat
  sleeps :: "'f delay list"
  history :: "attempt_record list"

text \<open>
  The \<open>for attempt in range(limit)\<close> loop of \<open>wrapper\<close>, the list being what is left of
  the range. \<open>func k\<close> is what the \<open>k\<close>-th call of the decorated operation does (counting
  from 0). An exception of \<open>calculate_delay\<close> or of \<open>time.sleep\<close> is raised inside the
  \<open>except\<close> block and leaves the wrapper. When the range is exhausted the statement after
  the loop raises a plain \<open>Exception\<close>.
\<close>

fun retry_loop ::
  "'f float_ops \<Rightarrow> 'f RetryConfig \<Rightarrow> int \<Rightarrow> (nat \<Rightarrow> exn + 'a) \<Rightarrow> nat list \<Rightarrow>
   ('f, 'a) retry_run \<Rightarrow> ('f, 'a) retry_run" where
  "retry_loop ops config limit func [] rn =
     rn\<lparr>outcome := Inl (PyException ''exceeded the maximum number of retries'')\<rparr>"
| "retry_loop ops config limit func (attempt # rest) rn =
     (case func (calls rn) of
        Inr result \<Rightarrow>
          rn\<lparr>outcome := Inr result,
             calls := calls rn + 1,
             history := history rn @
               [\<lparr>attempt_no = attempt + 1, success = True, exception = None\<rparr>]\<rparr>
      | Inl e \<Rightarrow>
          (let rn1 = rn\<lparr>calls := calls rn + 1,
                         history := history rn @
                           [\<lparr>attempt_no = attempt + 1, success = False, exception = Some e\<rparr>]\<rparr>
           in if \<not> manager_should_retry config e (attempt + 1)
              then rn1\<lparr>outcome := Inl e\<rparr>
              else if int attempt < limit - 1
              then (case calculate_delay ops config (attempt + 1) of
                      Inl e1 \<Rightarrow> rn1\<lparr>outcome := Inl e1\<rparr>
                    | Inr d \<Rightarrow>
                       (case time_sleep ops d of
                          Some e2 \<Rightarrow> rn1\<lparr>outcome := Inl e2\<rparr>
                        | None \<Rightarrow>
                            retry_loop ops config limit func rest (rn1\<lparr>sleeps := sleeps rn1 @ [d]\<rparr>)))
              else rn1\<lparr>outcome := Inl e\<rparr>))"

text \<open>
  \<open>retry_with_config(config)(func)(...)\<close>: \<open>RetryManager(config)\<close> falls back to
  \<open>RetryConfig()\<close> and the range to 3 when no configuration is given.
\<close>

definition retry_with_config ::
  "'f float_ops \<Rightarrow> 'f RetryConfig option \<Rightarrow> (nat \<Rightarrow> exn + 'a) \<Rightarrow> ('f, 'a) retry_run" where
  "retry_with_config ops config func =
     (let manager_config = (case config of None \<Rightarrow> RetryConfig_default ops | Some c \<Rightarrow> c);
          limit = (case config of None \<Rightarrow> 3 | Some c \<Rightarrow> max_attempts c)
      in retry_loop ops manager_config limit func [0..<nat limit]
           \<lparr>outcome = Inl (PyException ''not started''), calls = 0, sleeps = [], history = []\<rparr>)"

text \<open>\<open>retry(max_attempts, delay, backoff, exceptions)\<close>, the short form of the decorator.\<close>

definition retry ::
  "'f float_ops \<Rightarrow> int \<Rightarrow> 'f \<Rightarrow> 'f \<Rightarrow> (exn \<Rightarrow> bool) \<Rightarrow> (nat \<Rightarrow> exn + 'a) \<Rightarrow> ('f, 'a) retry_run" where
  "retry ops attempts first_delay backoff exceptions func =
     retry_with_config ops
       (Some ((RetryConfig_default ops)
          \<lparr>max_attempts := attempts, base_delay := first_delay, backoff_factor := backoff,
           retry_on_exceptions := exceptions\<rparr>))
       func"

text \<open>
  The back-off as the specification words it, for comparison: after failed attempt
  \<open>n\<close> (counted from 1) the exponential strategy waits
  \<open>baseDelay \<times> multiplier^(n - 1)\<close>, capped.
\<close>

definition specified_delay :: "'f float_ops \<Rightarrow> 'f RetryConfig \<Rightarrow> nat \<Rightarrow> exn + 'f delay" where
  "specified_delay ops config n =
     (if strategy config = IMMEDIATE then Inr NoDelay
      else (case (if strategy config = LINEAR_BACKOFF
                  then float_mul_int ops (base_delay config) n
                  else (case float_pow ops (backoff_factor config) (n - 1) of
                          Inl e \<Rightarrow> Inl e
                        | Inr p \<Rightarrow> Inr (float_mul ops (base_delay config) p))) of
              Inl e \<Rightarrow> Inl e
            | Inr d \<Rightarrow> Inr (Delay (py_min ops d (max_delay config)))))"

text \<open>An exception that the configuration lets the wrapper retry.\<close>

definition retryable :: "'f RetryConfig \<Rightarrow> exn \<Rightarrow> bool" where
  "retryable config e =
     (e \<noteq> NonRetryableError \<and> retry_on_exceptions config e
      \<and> (case should_retry config of Some p \<Rightarrow> p e | None \<Rightarrow> True))"

subsection \<open>Arithmetic for the examples\<close>

text \<open>
  The largest double, and arithmetic on the reals without rounding: \<open>**\<close> raises when
  the power is beyond the largest double, \<open>time.sleep\<close> raises for a negative number.
  Where every operand and result is an integer below \<open>2^53\<close>, as in the examples, the
  doubles compute the same. The general theorems hold for every \<open>float_ops\<close>.
\<close>

definition max_double :: real where
  "max_double = (2 ^ 53 - 1) * 2 ^ 971"

definition exact_ops :: "real float_ops" where
  "exact_ops =
     \<lparr>float_lit = (\<lambda>x. x),
      float_pow = (\<lambda>x n. if \<bar>x ^ n\<bar> > max_double then Inl OverflowError else Inr (x ^ n)),
      float_mul = (\<lambda>x y. x * y),
      float_mul_int = (\<lambda>x n. if real n > max_double then Inl OverflowError else Inr (x * real n)),
      float_less = (\<lambda>x y. x < y),
      sleep_raises = (\<lambda>x. if x < 0 then Some ValueError else None)\<rparr>"

text \<open>
  A configuration whose factor is \<open>1e200\<close>: its square is beyond the doubles.
\<close>

definition steep_factor :: real where
  "steep_factor = 10 ^ 200"

definition steep_config :: "real RetryConfig" where
  "steep_config = (RetryConfig_default exact_ops)\<lparr>max_attempts := 5, backoff_factor := steep_factor\<rparr>"

section \<open>The translation cache (\<^verbatim>\<open>app/core/translation.py\<close>)\<close>

subsection \<open>Data\<close>

text \<open>
  The dataclasses \<open>TranslationResult\<close> and \<open>TranslationRequest\<close>. Every \<open>metadata\<close>
  dictionary the module builds maps strings to strings. The optional fields \<open>context\<close>
  and \<open>terminology\<close> of a request are never set nor read.
\<close>

record TranslationResult =
  original_text :: string
  translated_text :: string
  source_lang :: string
  target_lang :: string
  confidence :: real
  service :: string
  metadata :: "(string \<times> string) list"

record TranslationRequest =
  req_text :: string
  req_source_lang :: string
  req_target_lang :: string

text \<open>
  A row of the SQLite table \<open>translations\<close> (the column \<open>hash\<close> is the key under which
  the row is kept). \<open>confidence\<close> and \<open>metadata\<close> are nullable. The metadata column
  holds what \<open>json.dumps\<close> made of the dictionary; \<open>json.loads\<close> gives the dictionary
  back, so the row keeps the dictionary itself.
\<close>

record translation_row =
  row_original_text :: string
  row_translated_text :: string
  row_source_lang :: string
  row_target_lang :: string
  row_service :: string
  row_timestamp :: real
  row_confidence :: "real option"
  row_metadata :: "(string \<times> string) list option"

text \<open>
  The object \<open>TranslationCache\<close>: the capacity of the memory tier, the dictionary
  \<open>_memory_cache\<close> (in insertion order), the list \<open>_access_order\<close> and the table
  behind \<open>conn\<close>.
\<close>

record TranslationCache =
  max_memory_size :: int
  memory_cache :: "(string \<times> TranslationResult) list"
  access_order :: "string list"
  translations_table :: "(string \<times> translation_row) list"

text \<open>
  \<open>TranslationCache(cache_path, max_memory_size)\<close>: the table is what the database
  file already holds (\<open>CREATE TABLE IF NOT EXISTS\<close>).
\<close>

definition TranslationCache_init :: "(string \<times> translation_row) list \<Rightarrow> int \<Rightarrow> TranslationCache" where
  "TranslationCache_init stored_rows capacity =
     \<lparr>max_memory_size = capacity, memory_cache = [], access_order = [],
      translations_table = stored_rows\<rparr>"

subsection \<open>\<open>_generate_key\<close> and \<open>_maintain_lru\<close>\<close>

definition generate_key :: "(string \<Rightarrow> string) \<Rightarrow> string \<Rightarrow> string \<Rightarrow> string \<Rightarrow> string \<Rightarrow> string" where
  "generate_key md5 txt src tgt svc = md5 (txt @ '':'' @ src @ '':'' @ tgt @ '':'' @ svc)"

text \<open>
  The \<open>while\<close> loop of \<open>_maintain_lru\<close>, by recursion on \<open>_access_order\<close>:
  \<open>pop(0)\<close> on the empty list raises \<open>IndexError\<close>.
\<close>

fun evict_oldest ::
  "int \<Rightarrow> (string \<times> TranslationResult) list \<Rightarrow> string list \<Rightarrow>
   exn option \<times> (string \<times> TranslationResult) list \<times> string list" where
  "evict_oldest capacity mem [] =
     (if int (length mem) > capacity then (Some IndexError, mem, []) else (None, mem, []))"
| "evict_oldest capacity mem (oldest_key # rest) =
     (if int (length mem) > capacity then evict_oldest capacity (AList.delete oldest_key mem) rest
      else (None, mem, oldest_key # rest))"

definition maintain_lru :: "TranslationCache \<Rightarrow> string \<Rightarrow> exn option \<times> TranslationCache" where
  "maintain_lru c key =
     (let order1 = (if key \<in> set (access_order c) then remove1 key (access_order c)
                    else access_order c) @ [key]
      in case evict_oldest (max_memory_size c) (memory_cache c) order1 of
           (e, mem, order2) \<Rightarrow> (e, c\<lparr>memory_cache := mem, access_order := order2\<rparr>))"

subsection \<open>\<open>get\<close> and \<open>store\<close>\<close>

text \<open>The \<open>TranslationResult\<close> that \<open>get\<close> builds from a row; \<open>confidence or 0.0\<close>.\<close>

definition result_of_row :: "translation_row \<Rightarrow> TranslationResult" where
  "result_of_row row =
     \<lparr>original_text = row_original_text row,
      translated_text = row_translated_text row,
      source_lang = row_source_lang row,
      target_lang = row_target_lang row,
      confidence = (case row_confidence row of
                      None \<Rightarrow> 0
                    | Some x \<Rightarrow> if x = 0 then 0 else x),
      service = row_service row,
      metadata = (case row_metadata row of None \<Rightarrow> [] | Some m \<Rightarrow> m)\<rparr>"

definition get ::
  "(string \<Rightarrow> string) \<Rightarrow> TranslationCache \<Rightarrow> string \<Rightarrow> string \<Rightarrow> string \<Rightarrow> string \<Rightarrow>
   (exn + TranslationResult option) \<times> TranslationCache" where
  "get md5 c txt src tgt svc =
     (let key = generate_key md5 txt src tgt svc in
      if map_of (memory_cache c) key \<noteq> None
      then (case maintain_lru c key of
              (Some e, c1) \<Rightarrow> (Inl e, c1)
            | (None, c1) \<Rightarrow>
               (case map_of (memory_cache c1) key of
                  None \<Rightarrow> (Inl KeyError, c1)
                | Some r \<Rightarrow> (Inr (Some r), c1)))
      else (case map_of (translations_table c) key of
              Some row \<Rightarrow>
                (let translation_result = result_of_row row;
                     c1 = c\<lparr>memory_cache := AList.update key translation_result (memory_cache c)\<rparr>
                 in case maintain_lru c1 key of
                      (Some e, c2) \<Rightarrow> (Inl e, c2)
                    | (None, c2) \<Rightarrow> (Inr (Some translation_result), c2))
            | None \<Rightarrow> (Inr None, c)))"

text \<open>The row that \<open>store\<close> writes at time \<open>now\<close>.\<close>

definition row_of_result :: "real \<Rightarrow> TranslationResult \<Rightarrow> translation_row" where
  "row_of_result now r =
     \<lparr>row_original_text = original_text r,
      row_translated_text = translated_text r,
      row_source_lang = source_lang r,
      row_target_lang = target_lang r,
      row_service = service r,
      row_timestamp = now,
      row_confidence = Some (confidence r),
      row_metadata = (if metadata r \<noteq> [] then Some (metadata r) else None)\<rparr>"

definition store ::
  "(string \<Rightarrow> string) \<Rightarrow> real \<Rightarrow> TranslationCache \<Rightarrow> TranslationResult \<Rightarrow>
   exn option \<times> TranslationCache" where
  "store md5 now c r =
     (let key = generate_key md5 (original_text r) (source_lang r) (target_lang r) (service r);
          c1 = c\<lparr>memory_cache := AList.update key r (memory_cache c)\<rparr>
      in case maintain_lru c1 key of
           (Some e, c2) \<Rightarrow> (Some e, c2)
         | (None, c2) \<Rightarrow>
            (None, c2\<lparr>translations_table := AList.update key (row_of_result now r) (translations_table c2)\<rparr>))"

text \<open>
  What every cache reachable from \<open>TranslationCache_init\<close> with a non-negative
  capacity satisfies: the memory tier is a dictionary (no key twice) within its
  capacity, and each of its keys is listed in the access order.
  \<open>TranslationManager\<close> builds its cache with the default capacity 1000.
\<close>

definition cache_inv :: "TranslationCache \<Rightarrow> bool" where
  "cache_inv c =
     (0 \<le> max_memory_size c
      \<and> distinct (map fst (memory_cache c))
      \<and> int (length (memory_cache c)) \<le> max_memory_size c
      \<and> fst ` set (memory_cache c) \<subseteq> set (access_order c))"

text \<open>Whether one of the two tiers holds an entry under the key of a request.\<close>

definition cached ::
  "(string \<Rightarrow> string) \<Rightarrow> TranslationCache \<Rightarrow> string \<Rightarrow> string \<Rightarrow> string \<Rightarrow> string \<Rightarrow> bool" where
  "cached md5 c txt src tgt svc =
     (map_of (memory_cache c) (generate_key md5 txt src tgt svc) \<noteq> None
      \<or> map_of (translations_table c) (generate_key md5 txt src tgt svc) \<noteq> None)"

section \<open>Terminology (\<open>TerminologyManager\<close>)\<close>

text \<open>
  The table of \<open>load_default_terminology\<close>; the Chinese terms are their UTF-8 bytes.
\<close>

definition zimu :: string where
  "zimu = [CHR 0xE5, CHR 0xAD, CHR 0x97, CHR 0xE5, CHR 0xB9, CHR 0x95]"

definition shipin :: string where
  "shipin = [CHR 0xE8, CHR 0xA7, CHR 0x86, CHR 0xE9, CHR 0xA2, CHR 0x91]"

definition fanyi :: string where
  "fanyi = [CHR 0xE7, CHR 0xBF, CHR 0xBB, CHR 0xE8, CHR 0xAF, CHR 0x91]"

definition yuyin_shibie :: string where
  "yuyin_shibie = [CHR 0xE8, CHR 0xAF, CHR 0xAD, CHR 0xE9, CHR 0x9F, CHR 0xB3,
                   CHR 0xE8, CHR 0xAF, CHR 0x86, CHR 0xE5, CHR 0x88, CHR 0xAB]"

definition rengong_zhineng :: string where
  "rengong_zhineng = [CHR 0xE4, CHR 0xBA, CHR 0xBA, CHR 0xE5, CHR 0xB7, CHR 0xA5,
                      CHR 0xE6, CHR 0x99, CHR 0xBA, CHR 0xE8, CHR 0x83, CHR 0xBD]"

definition default_terminology :: "(string \<times> (string \<times> string) list) list" where
  "default_terminology =
     [(''zh-en'', [(zimu, ''subtitle''), (shipin, ''video''), (fanyi, ''translation''),
                   (yuyin_shibie, ''speech recognition''),
                   (rengong_zhineng, ''artificial intelligence'')]),
      (''en-zh'', [(''subtitle'', zimu), (''video'', shipin), (''translation'', fanyi),
                   (''speech recognition'', yuyin_shibie),
                   (''artificial intelligence'', rengong_zhineng)])]"

text \<open>
  \<open>apply_terminology\<close>. \<open>re_sub source_term target_term s\<close> stands for
  \<open>re.sub(r'\b' + re.escape(source_term) + r'\b', target_term, s, flags=re.IGNORECASE)\<close>.
\<close>

definition apply_terminology ::
  "(string \<Rightarrow> string \<Rightarrow> string \<Rightarrow> string) \<Rightarrow> (string \<times> (string \<times> string) list) list \<Rightarrow>
   string \<Rightarrow> string \<Rightarrow> string \<Rightarrow> string" where
  "apply_terminology re_sub terms txt src tgt =
     (case map_of terms (src @ ''-'' @ tgt) of
        None \<Rightarrow> txt
      | Some pairs \<Rightarrow> foldl (\<lambda>res (source_term, target_term). re_sub source_term target_term res)
                       txt pairs)"

subsection \<open>The substitution on ASCII text\<close>

text \<open>
  A concrete \<open>re_sub\<close> for the closed examples: what the regular expression above does
  on text whose letters are ASCII, for a non-empty term and a replacement without
  backslashes. Bytes above 127 count as word characters. The general theorems hold for
  every \<open>re_sub\<close>.
\<close>

definition ascii_lower :: "char \<Rightarrow> char" where
  "ascii_lower c =
     (case map_of (zip ''ABCDEFGHIJKLMNOPQRSTUVWXYZ'' ''abcdefghijklmnopqrstuvwxyz'') c of
        None \<Rightarrow> c
      | Some l \<Rightarrow> l)"

definition word_char :: "char option \<Rightarrow> bool" where
  "word_char x =
     (case x of
        None \<Rightarrow> False
      | Some c \<Rightarrow> c \<in> set ''abcdefghijklmnopqrstuvwxyzABCDEFGHIJKLMNOPQRSTUVWXYZ0123456789_''
                  \<or> (of_char c :: nat) \<ge> 128)"

fun matches_at :: "string \<Rightarrow> string \<Rightarrow> bool" where
  "matches_at [] s = True"
| "matches_at (p # ps) [] = False"
| "matches_at (p # ps) (c # cs) = (ascii_lower p = ascii_lower c \<and> matches_at ps cs)"

text \<open>
  The scan from left to right: \<open>skip\<close> counts the characters of a match still to pass,
  \<open>prev\<close> is the character before the current position. \<open>\b\<close> holds between two
  positions when exactly one side is a word character.
\<close>

fun sub_scan :: "string \<Rightarrow> string \<Rightarrow> nat \<Rightarrow> char option \<Rightarrow> string \<Rightarrow> string" where
  "sub_scan t r skip prev [] = []"
| "sub_scan t r (Suc k) prev (c # cs) = sub_scan t r k (Some c) cs"
| "sub_scan t r 0 prev (c # cs) =
     (if t \<noteq> [] \<and> matches_at t (c # cs)
         \<and> word_char prev \<noteq> word_char (Some c)
         \<and> word_char (Some (last (take (length t) (c # cs))))
             \<noteq> word_char (case drop (length t) (c # cs) of [] \<Rightarrow> None | d # ds \<Rightarrow> Some d)
      then r @ sub_scan t r (length t - 1) (Some c) cs
      else c # sub_scan t r 0 (Some c) cs)"

definition re_sub_ascii :: "string \<Rightarrow> string \<Rightarrow> string \<Rightarrow> string" where
  "re_sub_ascii source_term target_term s = sub_scan source_term target_term 0 None s"

section \<open>Providers and the failover manager (\<^verbatim>\<open>app/core/translation.py\<close>)\<close>

text \<open>
  A translation service as the manager sees it (\<open>TranslatorInterface\<close>): the answer of
  \<open>is_available()\<close>, and what \<open>translate_single\<close> and \<open>translate_batch\<close> return or
  raise for a request.
\<close>

record provider =
  is_available :: bool
  translate_single :: "TranslationRequest \<Rightarrow> exn + TranslationResult"
  translate_batch :: "TranslationRequest list \<Rightarrow> exn + TranslationResult list"

text \<open>\<open>FallbackTranslator\<close>.\<close>

definition fallback_translate_single :: "TranslationRequest \<Rightarrow> TranslationResult" where
  "fallback_translate_single request =
     \<lparr>original_text = req_text request,
      translated_text = req_text request,
      source_lang = req_source_lang request,
      target_lang = req_target_lang request,
      confidence = 0,
      service = ''fallback'',
      metadata = [(''warning'', ''No translation service available'')]\<rparr>"

definition FallbackTranslator :: provider where
  "FallbackTranslator =
     \<lparr>is_available = True,
      translate_single = (\<lambda>request. Inr (fallback_translate_single request)),
      translate_batch = (\<lambda>requests. Inr (map fallback_translate_single requests))\<rparr>"

text \<open>
  \<open>TranslationManager\<close>: the dictionary \<open>services\<close>, the list \<open>service_priority\<close>, the
  cache and the terminology table.
\<close>

record TranslationManager =
  services :: "string \<Rightarrow> provider option"
  service_priority :: "string list"
  cache :: TranslationCache
  terminology :: "(string \<times> (string \<times> string) list) list"

text \<open>
  \<open>_init_services\<close>: a DeepL translator when the key \<open>deepl\<close> is configured, and always
  the fallback translator. The DeepL translator talks to a remote service; the manager
  takes it as given.
\<close>

definition init_services :: "provider option \<Rightarrow> string \<Rightarrow> provider option" where
  "init_services deepl =
     (case deepl of
        Some p \<Rightarrow> [''DeepL'' \<mapsto> p, ''Fallback'' \<mapsto> FallbackTranslator]
      | None \<Rightarrow> [''Fallback'' \<mapsto> FallbackTranslator])"

text \<open>
  \<open>__init__\<close>. \<open>primary_service_title\<close> is \<open>primary_service.title()\<close> when a primary
  service is named.
\<close>

definition TranslationManager_init ::
  "provider option \<Rightarrow> (string \<times> translation_row) list \<Rightarrow> string option \<Rightarrow> TranslationManager" where
  "TranslationManager_init deepl stored_rows primary_service_title =
     \<lparr>services = init_services deepl,
      service_priority =
        (let available_services = [''DeepL'', ''OpenAI'', ''Google'', ''Fallback''] in
         case primary_service_title of
           Some t \<Rightarrow>
             (if t \<in> set available_services
              then [t] @ filter (\<lambda>s. s \<noteq> t) available_services
              else [''DeepL'', ''OpenAI'', ''Google'', ''Fallback''])
         | None \<Rightarrow> [''DeepL'', ''OpenAI'', ''Google'', ''Fallback'']),
      cache = TranslationCache_init stored_rows 1000,
      terminology = default_terminology\<rparr>"

subsection \<open>\<open>translate\<close>\<close>

text \<open>
  \<open>not text.strip()\<close>: the text consists of white space only. \<open>str.strip\<close> removes the
  29 characters for which \<open>str.isspace\<close> holds: ten of one byte, and nineteen whose
  UTF-8 encodings are listed below (U+0085, U+00A0, U+1680, U+2000 to U+200A, U+2028,
  U+2029, U+202F, U+205F, U+3000).
\<close>

definition is_space :: "char \<Rightarrow> bool" where
  "is_space c = (c \<in> set [CHR 0x09, CHR 0x0A, CHR 0x0B, CHR 0x0C, CHR 0x0D,
                           CHR 0x1C, CHR 0x1D, CHR 0x1E, CHR 0x1F, CHR 0x20])"

definition wide_space :: "string list" where
  "wide_space =
     [[CHR 0xC2, CHR 0x85], [CHR 0xC2, CHR 0xA0],
      [CHR 0xE1, CHR 0x9A, CHR 0x80],
      [CHR 0xE2, CHR 0x80, CHR 0x80], [CHR 0xE2, CHR 0x80, CHR 0x81],
      [CHR 0xE2, CHR 0x80, CHR 0x82], [CHR 0xE2, CHR 0x80, CHR 0x83],
      [CHR 0xE2, CHR 0x80, CHR 0x84], [CHR 0xE2, CHR 0x80, CHR 0x85],
      [CHR 0xE2, CHR 0x80, CHR 0x86], [CHR 0xE2, CHR 0x80, CHR 0x87],
      [CHR 0xE2, CHR 0x80, CHR 0x88], [CHR 0xE2, CHR 0x80, CHR 0x89],
      [CHR 0xE2, CHR 0x80, CHR 0x8A],
      [CHR 0xE2, CHR 0x80, CHR 0xA8], [CHR 0xE2, CHR 0x80, CHR 0xA9],
      [CHR 0xE2, CHR 0x80, CHR 0xAF], [CHR 0xE2, CHR 0x81, CHR 0x9F],
      [CHR 0xE3, CHR 0x80, CHR 0x80]]"

fun blank :: "string \<Rightarrow> bool" where
  "blank [] = True"
| "blank [a] = is_space a"
| "blank [a, b] = (is_space a \<and> is_space b \<or> [a, b] \<in> set wide_space)"
| "blank (a # b # c # rest) =
     (if is_space a then blank (b # c # rest)
      else if [a, b] \<in> set wide_space then blank (c # rest)
      else [a, b, c] \<in> set wide_space \<and> blank rest)"

definition passthrough :: "string \<Rightarrow> string \<Rightarrow> string \<Rightarrow> TranslationResult" where
  "passthrough txt src tgt =
     \<lparr>original_text = txt, translated_text = txt, source_lang = src, target_lang = tgt,
      confidence = 1, service = ''passthrough'', metadata = []\<rparr>"

definition emergency_fallback :: "string \<Rightarrow> string \<Rightarrow> string \<Rightarrow> TranslationResult" where
  "emergency_fallback txt src tgt =
     \<lparr>original_text = txt, translated_text = txt, source_lang = src, target_lang = tgt,
      confidence = 0, service = ''emergency_fallback'',
      metadata = [(''error'', ''All services failed including fallback'')]\<rparr>"

text \<open>
  The calls that leave the manager, in the order they are made: a cache query for a
  service name, an availability probe, a single or a batch translation call, a cache
  write. The log is kept beside the result so that call counts can be stated.
\<close>

datatype call =
    CacheGet string
  | Probe string
  | Single string
  | Batch string
  | CacheStore string

text \<open>
  The first loop of \<open>translate\<close> (and the inner loop of \<open>translate_batch\<close>): ask the
  cache for each configured service in priority order, stop at the first hit.
  \<open>cache.get\<close> is outside every \<open>try\<close>.
\<close>

fun cache_lookup ::
  "(string \<Rightarrow> string) \<Rightarrow> (string \<Rightarrow> provider option) \<Rightarrow> string list \<Rightarrow> TranslationCache \<Rightarrow>
   string \<Rightarrow> string \<Rightarrow> string \<Rightarrow> call list \<Rightarrow>
   (exn + TranslationResult option) \<times> TranslationCache \<times> call list" where
  "cache_lookup md5 svcs [] c txt src tgt calls_made = (Inr None, c, calls_made)"
| "cache_lookup md5 svcs (service_name # rest) c txt src tgt calls_made =
     (case svcs service_name of
        None \<Rightarrow> cache_lookup md5 svcs rest c txt src tgt calls_made
      | Some p \<Rightarrow>
         (case get md5 c txt src tgt service_name of
            (Inl e, c1) \<Rightarrow> (Inl e, c1, calls_made @ [CacheGet service_name])
          | (Inr (Some cached_result), c1) \<Rightarrow>
              (Inr (Some cached_result), c1, calls_made @ [CacheGet service_name])
          | (Inr None, c1) \<Rightarrow>
              cache_lookup md5 svcs rest c1 txt src tgt (calls_made @ [CacheGet service_name])))"

text \<open>
  The second loop of \<open>translate\<close> and the statements after it. Whatever
  \<open>translate_single\<close>, \<open>apply_terminology\<close> or \<open>cache.store\<close> raise is caught and the
  next service is tried.
\<close>

fun try_services ::
  "(string \<Rightarrow> string) \<Rightarrow> (string \<Rightarrow> string \<Rightarrow> string \<Rightarrow> string) \<Rightarrow> real \<Rightarrow>
   (string \<Rightarrow> provider option) \<Rightarrow> (string \<times> (string \<times> string) list) list \<Rightarrow> bool \<Rightarrow>
   string list \<Rightarrow> TranslationCache \<Rightarrow> string \<Rightarrow> string \<Rightarrow> string \<Rightarrow> call list \<Rightarrow>
   TranslationResult \<times> TranslationCache \<times> call list" where
  "try_services md5 re_sub now svcs terms use_cache [] c txt src tgt calls_made =
     (emergency_fallback txt src tgt, c, calls_made)"
| "try_services md5 re_sub now svcs terms use_cache (service_name # rest) c txt src tgt calls_made =
     (case svcs service_name of
        None \<Rightarrow> try_services md5 re_sub now svcs terms use_cache rest c txt src tgt calls_made
      | Some p \<Rightarrow>
         (if \<not> is_available p
          then try_services md5 re_sub now svcs terms use_cache rest c txt src tgt
                 (calls_made @ [Probe service_name])
          else (case translate_single p
                       \<lparr>req_text = txt, req_source_lang = src, req_target_lang = tgt\<rparr> of
                  Inl e \<Rightarrow>
                    try_services md5 re_sub now svcs terms use_cache rest c txt src tgt
                      (calls_made @ [Probe service_name, Single service_name])
                | Inr r \<Rightarrow>
                    (let r1 = r\<lparr>translated_text :=
                                  apply_terminology re_sub terms (translated_text r) src tgt\<rparr>
                     in if use_cache
                        then (case store md5 now c r1 of
                                (Some e, c1) \<Rightarrow>
                                  try_services md5 re_sub now svcs terms use_cache rest c1 txt src tgt
                                    (calls_made @ [Probe service_name, Single service_name,
                                            CacheStore service_name])
                              | (None, c1) \<Rightarrow>
                                  (r1, c1, calls_made @ [Probe service_name, Single service_name,
                                                  CacheStore service_name]))
                        else (r1, c, calls_made @ [Probe service_name, Single service_name])))))"

definition translate ::
  "(string \<Rightarrow> string) \<Rightarrow> (string \<Rightarrow> string \<Rightarrow> string \<Rightarrow> string) \<Rightarrow> real \<Rightarrow> TranslationManager \<Rightarrow>
   string \<Rightarrow> string \<Rightarrow> string \<Rightarrow> bool \<Rightarrow>
   (exn + TranslationResult) \<times> TranslationCache \<times> call list" where
  "translate md5 re_sub now mgr txt src tgt use_cache =
     (if blank txt then (Inr (passthrough txt src tgt), cache mgr, [])
      else
        (case (if use_cache
               then cache_lookup md5 (services mgr) (service_priority mgr) (cache mgr) txt src tgt []
               else (Inr None, cache mgr, [])) of
           (Inl e, c1, log1) \<Rightarrow> (Inl e, c1, log1)
         | (Inr (Some cached_result), c1, log1) \<Rightarrow> (Inr cached_result, c1, log1)
         | (Inr None, c1, log1) \<Rightarrow>
            (case try_services md5 re_sub now (services mgr) (terminology mgr) use_cache
                    (service_priority mgr) c1 txt src tgt log1 of
               (r, c2, log2) \<Rightarrow> (Inr r, c2, log2))))"


subsection \<open>Concrete inputs used in the examples\<close>

text \<open>The result stored by the repository's own cache test: \<open>Hello\<close> and its translation.\<close>

definition hello_result :: TranslationResult where
  "hello_result =
     \<lparr>original_text = ''Hello'',
      translated_text = [CHR 0xE4, CHR 0xBD, CHR 0xA0, CHR 0xE5, CHR 0xA5, CHR 0xBD],
      source_lang = ''en'', target_lang = ''zh-CN'', confidence = 0.95, service = ''test'',
      metadata = []\<rparr>"

text \<open>
  A DeepL translator that is reachable and answers every request with the text in
  square brackets; and a row that an earlier session has cached for DeepL under the
  key of the request \<open>Hello\<close>, \<open>en\<close>, \<open>zh-CN\<close>.
\<close>

definition deepl_up :: provider where
  "deepl_up =
     \<lparr>is_available = True,
      translate_single =
        (\<lambda>request. Inr \<lparr>original_text = req_text request,
                          translated_text = ''['' @ req_text request @ '']'',
                          source_lang = req_source_lang request,
                          target_lang = req_target_lang request,
                          confidence = 0.95, service = ''DeepL'',
                          metadata = [(''detected_language'', req_source_lang request)]\<rparr>),
      translate_batch =
        (\<lambda>requests. Inr (map (\<lambda>request.
                         \<lparr>original_text = req_text request,
                          translated_text = ''['' @ req_text request @ '']'',
                          source_lang = req_source_lang request,
                          target_lang = req_target_lang request,
                          confidence = 0.95, service = ''DeepL'',
                          metadata = []\<rparr>) requests))\<rparr>"

definition hello_deepl_row :: translation_row where
  "hello_deepl_row =
     \<lparr>row_original_text = ''Hello'',
      row_translated_text = [CHR 0xE4, CHR 0xBD, CHR 0xA0, CHR 0xE5, CHR 0xA5, CHR 0xBD],
      row_source_lang = ''en'', row_target_lang = ''zh-CN'', row_service = ''DeepL'',
      row_timestamp = 3, row_confidence = Some 0.95, row_metadata = None\<rparr>"

text \<open>
  A manager whose primary service is the fallback translator, with DeepL configured and
  the row above in the table.
\<close>

definition fallback_first_manager :: TranslationManager where
  "fallback_first_manager =
     TranslationManager_init (Some deepl_up) [(''Hello:en:zh-CN:DeepL'', hello_deepl_row)]
       (Some ''Fallback'')"

text \<open>A manager without any API key and with an empty table.\<close>

definition keyless_manager :: TranslationManager where
  "keyless_manager = TranslationManager_init None [] None"

subsection \<open>\<open>translate_batch\<close>\<close>

text \<open>
  The first loop of \<open>translate_batch\<close>, by recursion on the texts still to look at;
  \<open>i\<close> is the index \<open>enumerate\<close> gives the next text. An entry \<open>None\<close> of \<open>results\<close> is
  the placeholder of a text that has to be translated.
\<close>

fun check_cache_each ::
  "(string \<Rightarrow> string) \<Rightarrow> (string \<Rightarrow> provider option) \<Rightarrow> string list \<Rightarrow> string \<Rightarrow> string \<Rightarrow>
   bool \<Rightarrow> nat \<Rightarrow> string list \<Rightarrow> TranslationResult option list \<Rightarrow> nat list \<Rightarrow> string list \<Rightarrow>
   TranslationCache \<Rightarrow> call list \<Rightarrow>
   (exn + TranslationResult option list \<times> nat list \<times> string list) \<times> TranslationCache \<times> call list" where
  "check_cache_each md5 svcs prio src tgt use_cache i [] results uncached_indices uncached_texts
     c calls_made = (Inr (results, uncached_indices, uncached_texts), c, calls_made)"
| "check_cache_each md5 svcs prio src tgt use_cache i (txt # rest) results uncached_indices
     uncached_texts c calls_made =
     (if blank txt
      then check_cache_each md5 svcs prio src tgt use_cache (i + 1) rest
             (results @ [Some (passthrough txt src tgt)]) uncached_indices uncached_texts
             c calls_made
      else (case (if use_cache then cache_lookup md5 svcs prio c txt src tgt calls_made
                  else (Inr None, c, calls_made)) of
              (Inl e, c1, made1) \<Rightarrow> (Inl e, c1, made1)
            | (Inr (Some cached_result), c1, made1) \<Rightarrow>
                check_cache_each md5 svcs prio src tgt use_cache (i + 1) rest
                  (results @ [Some cached_result]) uncached_indices uncached_texts c1 made1
            | (Inr None, c1, made1) \<Rightarrow>
                check_cache_each md5 svcs prio src tgt use_cache (i + 1) rest
                  (results @ [None]) (uncached_indices @ [i]) (uncached_texts @ [txt])
                  c1 made1))"

text \<open>The search for the first configured service whose probe answers yes.\<close>

fun first_available ::
  "(string \<Rightarrow> provider option) \<Rightarrow> string list \<Rightarrow> call list \<Rightarrow>
   (string \<times> provider) option \<times> call list" where
  "first_available svcs [] calls_made = (None, calls_made)"
| "first_available svcs (service_name # rest) calls_made =
     (case svcs service_name of
        None \<Rightarrow> first_available svcs rest calls_made
      | Some p \<Rightarrow>
         (if is_available p then (Some (service_name, p), calls_made @ [Probe service_name])
          else first_available svcs rest (calls_made @ [Probe service_name])))"

text \<open>
  The loop over \<open>enumerate(batch_results)\<close>: terminology, cache write, and the result
  put at \<open>uncached_indices[i]\<close>. Nothing here is inside a \<open>try\<close>; an index out of range
  raises \<open>IndexError\<close>.
\<close>

fun place_results ::
  "(string \<Rightarrow> string) \<Rightarrow> (string \<Rightarrow> string \<Rightarrow> string \<Rightarrow> string) \<Rightarrow> real \<Rightarrow>
   (string \<times> (string \<times> string) list) list \<Rightarrow> bool \<Rightarrow> string \<Rightarrow> string \<Rightarrow> string \<Rightarrow>
   nat list \<Rightarrow> nat \<Rightarrow> TranslationResult list \<Rightarrow> TranslationResult option list \<Rightarrow>
   TranslationCache \<Rightarrow> call list \<Rightarrow>
   (exn + TranslationResult option list) \<times> TranslationCache \<times> call list" where
  "place_results md5 re_sub now terms use_cache service_name src tgt uncached_indices i []
     results c calls_made = (Inr results, c, calls_made)"
| "place_results md5 re_sub now terms use_cache service_name src tgt uncached_indices i
     (r # rest) results c calls_made =
     (let r1 = r\<lparr>translated_text := apply_terminology re_sub terms (translated_text r) src tgt\<rparr>;
          made1 = (if use_cache then calls_made @ [CacheStore service_name] else calls_made)
      in case (if use_cache then store md5 now c r1 else (None, c)) of
           (Some e, c1) \<Rightarrow> (Inl e, c1, made1)
         | (None, c1) \<Rightarrow>
            (if i < length uncached_indices \<and> uncached_indices ! i < length results
             then place_results md5 re_sub now terms use_cache service_name src tgt
                    uncached_indices (i + 1) rest
                    (results[uncached_indices ! i := Some r1]) c1 made1
             else (Inl IndexError, c1, made1)))"

text \<open>The result the \<open>else\<close> branch builds when no service is available.\<close>

definition no_service_result :: "string \<Rightarrow> string \<Rightarrow> string \<Rightarrow> TranslationResult" where
  "no_service_result txt src tgt =
     \<lparr>original_text = txt, translated_text = txt, source_lang = src, target_lang = tgt,
      confidence = 0, service = ''fallback'', metadata = [(''error'', ''No service available'')]\<rparr>"

text \<open>The manager's \<open>translate_batch\<close> (the parameter \<open>max_workers\<close> is never used).\<close>

definition manager_translate_batch ::
  "(string \<Rightarrow> string) \<Rightarrow> (string \<Rightarrow> string \<Rightarrow> string \<Rightarrow> string) \<Rightarrow> real \<Rightarrow> TranslationManager \<Rightarrow>
   string list \<Rightarrow> string \<Rightarrow> string \<Rightarrow> bool \<Rightarrow>
   (exn + TranslationResult option list) \<times> TranslationCache \<times> call list" where
  "manager_translate_batch md5 re_sub now mgr texts src tgt use_cache =
     (if texts = [] then (Inr [], cache mgr, [])
      else
        (case check_cache_each md5 (services mgr) (service_priority mgr) src tgt use_cache
                0 texts [] [] [] (cache mgr) [] of
           (Inl e, c1, made1) \<Rightarrow> (Inl e, c1, made1)
         | (Inr (results, uncached_indices, uncached_texts), c1, made1) \<Rightarrow>
            (if uncached_texts = [] then (Inr results, c1, made1)
             else
               (case first_available (services mgr) (service_priority mgr) made1 of
                  (Some (service_name, p), made2) \<Rightarrow>
                    (case translate_batch p
                            (map (\<lambda>t. \<lparr>req_text = t, req_source_lang = src, req_target_lang = tgt\<rparr>)
                               uncached_texts) of
                       Inl e \<Rightarrow> (Inl e, c1, made2 @ [Batch service_name])
                     | Inr batch_results \<Rightarrow>
                         place_results md5 re_sub now (terminology mgr) use_cache service_name
                           src tgt uncached_indices 0 batch_results results c1
                           (made2 @ [Batch service_name]))
                | (None, made2) \<Rightarrow>
                    (Inr (foldl (\<lambda>res i. res[i := Some (no_service_result (texts ! i) src tgt)])
                            results uncached_indices),
                     c1, made2)))))"

text \<open>
  The cache and the call log as the first loop finds them when it comes to the text at
  position \<open>k\<close>: what the loop over the texts before it has left of the cache \<open>c\<close>.
\<close>

definition first_pass_state ::
  "(string \<Rightarrow> string) \<Rightarrow> (string \<Rightarrow> provider option) \<Rightarrow> string list \<Rightarrow> string \<Rightarrow> string \<Rightarrow>
   bool \<Rightarrow> string list \<Rightarrow> TranslationCache \<Rightarrow> nat \<Rightarrow> TranslationCache \<times> call list" where
  "first_pass_state md5 svcs prio src tgt use_cache texts c k =
     snd (check_cache_each md5 svcs prio src tgt use_cache 0 (take k texts) [] [] [] c [])"

text \<open>
  The result \<open>r\<close> is what the cache returned for the text at position \<open>k\<close>: the look-up
  of that text, in that state of the cache, hits and returns \<open>r\<close>.
\<close>

definition cache_answer ::
  "(string \<Rightarrow> string) \<Rightarrow> (string \<Rightarrow> provider option) \<Rightarrow> string list \<Rightarrow> string \<Rightarrow> string \<Rightarrow>
   bool \<Rightarrow> string list \<Rightarrow> TranslationCache \<Rightarrow> nat \<Rightarrow> TranslationResult \<Rightarrow> bool" where
  "cache_answer md5 svcs prio src tgt use_cache texts c k r =
     (case first_pass_state md5 svcs prio src tgt use_cache texts c k of
        (c_k, made_k) \<Rightarrow>
          fst (cache_lookup md5 svcs prio c_k (texts ! k) src tgt made_k) = Inr (Some r))"

text \<open>
  What the first loop leaves at position \<open>k\<close>: the placeholder (for a text that is not
  blank), the pass-through result of a blank text, or the result the cache returned for
  that text.
\<close>

definition first_pass_entry ::
  "(string \<Rightarrow> string) \<Rightarrow> (string \<Rightarrow> provider option) \<Rightarrow> string list \<Rightarrow> string \<Rightarrow> string \<Rightarrow>
   bool \<Rightarrow> string list \<Rightarrow> TranslationCache \<Rightarrow> nat \<Rightarrow> TranslationResult option \<Rightarrow> bool" where
  "first_pass_entry md5 svcs prio src tgt use_cache texts c k entry =
     (case entry of
        None \<Rightarrow> \<not> blank (texts ! k)
      | Some r \<Rightarrow> if blank (texts ! k) then r = passthrough (texts ! k) src tgt
                  else use_cache \<and> cache_answer md5 svcs prio src tgt use_cache texts c k r)"

text \<open>
  The example of the specification: a manager with DeepL configured and an earlier
  DeepL result for the text \<open>b\<close> in the table; the texts \<open>a\<close>, \<open>b\<close>, \<open>c\<close>.
\<close>

definition b_row :: translation_row where
  "b_row =
     \<lparr>row_original_text = ''b'', row_translated_text = ''(b)'',
      row_source_lang = ''en'', row_target_lang = ''zh-CN'', row_service = ''DeepL'',
      row_timestamp = 3, row_confidence = Some 0.95, row_metadata = None\<rparr>"

definition batch_manager :: TranslationManager where
  "batch_manager = TranslationManager_init (Some deepl_up) [(''b:en:zh-CN:DeepL'', b_row)] None"

subsection \<open>\<open>translate\<close> when the database, JSON or the regular expressions raise\<close>

text \<open>
  The definitions of \<open>get\<close>, \<open>store\<close> and \<open>apply_terminology\<close> above say what the methods
  do when SQLite, \<open>json\<close>, \<open>str.encode\<close> and \<open>re.sub\<close> answer. Each of these can raise:

  \<^item> \<open>key_str.encode('utf-8')\<close> in \<open>_generate_key\<close> raises \<open>UnicodeEncodeError\<close> for a
    string with a lone surrogate; \<open>get\<close> and \<open>store\<close> call it first.
  \<^item> In \<open>get\<close>, when the memory tier has no entry, the \<open>SELECT\<close> raises an
    \<open>sqlite3\<close> error or \<open>json.loads(metadata_str)\<close> raises \<open>JSONDecodeError\<close>.
  \<^item> In \<open>store\<close>, after the memory tier is written, \<open>json.dumps(result.metadata)\<close>
    raises \<open>TypeError\<close>, or \<open>INSERT OR REPLACE\<close> or \<open>commit\<close> raise an \<open>sqlite3\<close> error.
  \<^item> \<open>re.sub\<close> raises \<open>re.error\<close> (or \<open>IndexError\<close>) for a replacement with a bad
    escape or group reference.

  The record \<open>failures\<close> says which of these calls raises what: \<open>encode_raises\<close> for a
  key string, \<open>select_raises\<close> for a key, \<open>insert_raises\<close> for a key and the result to be
  written, \<open>re_sub_raises\<close> for a source term, a target term and a text.
\<close>

record failures =
  encode_raises :: "string \<Rightarrow> exn option"
  select_raises :: "string \<Rightarrow> exn option"
  insert_raises :: "string \<Rightarrow> TranslationResult \<Rightarrow> exn option"
  re_sub_raises :: "string \<Rightarrow> string \<Rightarrow> string \<Rightarrow> exn option"

definition no_failures :: failures where
  "no_failures =
     \<lparr>encode_raises = (\<lambda>s. None), select_raises = (\<lambda>k. None),
      insert_raises = (\<lambda>k r. None), re_sub_raises = (\<lambda>s t x. None)\<rparr>"

text \<open>The string that \<open>_generate_key\<close> encodes and hashes.\<close>

definition key_str :: "string \<Rightarrow> string \<Rightarrow> string \<Rightarrow> string \<Rightarrow> string" where
  "key_str txt src tgt svc = txt @ '':'' @ src @ '':'' @ tgt @ '':'' @ svc"

text \<open>
  \<open>cache.get\<close> with its failures. A failure leaves the cache as it was: the key is
  computed first, and the table is read before the memory tier is touched.
\<close>

definition get_or_raise ::
  "failures \<Rightarrow> (string \<Rightarrow> string) \<Rightarrow> TranslationCache \<Rightarrow> string \<Rightarrow> string \<Rightarrow> string \<Rightarrow> string \<Rightarrow>
   (exn + TranslationResult option) \<times> TranslationCache" where
  "get_or_raise fl md5 c txt src tgt svc =
     (case encode_raises fl (key_str txt src tgt svc) of
        Some e \<Rightarrow> (Inl e, c)
      | None \<Rightarrow>
         (if map_of (memory_cache c) (generate_key md5 txt src tgt svc) \<noteq> None
          then get md5 c txt src tgt svc
          else (case select_raises fl (generate_key md5 txt src tgt svc) of
                  Some e \<Rightarrow> (Inl e, c)
                | None \<Rightarrow> get md5 c txt src tgt svc)))"

text \<open>
  \<open>cache.store\<close> with its failures. When the key cannot be computed nothing changes;
  when the table cannot be written the memory tier already holds the result.
\<close>

definition store_or_raise ::
  "failures \<Rightarrow> (string \<Rightarrow> string) \<Rightarrow> real \<Rightarrow> TranslationCache \<Rightarrow> TranslationResult \<Rightarrow>
   exn option \<times> TranslationCache" where
  "store_or_raise fl md5 now c r =
     (case encode_raises fl (key_str (original_text r) (source_lang r) (target_lang r) (service r)) of
        Some e \<Rightarrow> (Some e, c)
      | None \<Rightarrow>
         (case store md5 now c r of
            (Some e, c1) \<Rightarrow> (Some e, c1)
          | (None, c1) \<Rightarrow>
             (case insert_raises fl
                     (generate_key md5 (original_text r) (source_lang r) (target_lang r) (service r))
                     r of
                Some e \<Rightarrow> (Some e, c1\<lparr>translations_table := translations_table c\<rparr>)
              | None \<Rightarrow> (None, c1))))"

text \<open>
  \<open>apply_terminology\<close> with the failures of \<open>re.sub\<close>: the loop over the terms of the
  language pair stops at the first substitution that raises.
\<close>

fun substitute_terms ::
  "failures \<Rightarrow> (string \<Rightarrow> string \<Rightarrow> string \<Rightarrow> string) \<Rightarrow> (string \<times> string) list \<Rightarrow> string \<Rightarrow>
   exn + string" where
  "substitute_terms fl re_sub [] res = Inr res"
| "substitute_terms fl re_sub ((source_term, target_term) # rest) res =
     (case re_sub_raises fl source_term target_term res of
        Some e \<Rightarrow> Inl e
      | None \<Rightarrow> substitute_terms fl re_sub rest (re_sub source_term target_term res))"

definition apply_terminology_or_raise ::
  "failures \<Rightarrow> (string \<Rightarrow> string \<Rightarrow> string \<Rightarrow> string) \<Rightarrow> (string \<times> (string \<times> string) list) list \<Rightarrow>
   string \<Rightarrow> string \<Rightarrow> string \<Rightarrow> exn + string" where
  "apply_terminology_or_raise fl re_sub terms txt src tgt =
     (case map_of terms (src @ ''-'' @ tgt) of
        None \<Rightarrow> Inr txt
      | Some pairs \<Rightarrow> substitute_terms fl re_sub pairs txt)"

text \<open>
  The first loop of \<open>translate\<close>: \<open>cache.get\<close> is outside every \<open>try\<close>, so what it raises
  leaves \<open>translate\<close>.
\<close>

fun cache_lookup_or_raise ::
  "failures \<Rightarrow> (string \<Rightarrow> string) \<Rightarrow> (string \<Rightarrow> provider option) \<Rightarrow> string list \<Rightarrow>
   TranslationCache \<Rightarrow> string \<Rightarrow> string \<Rightarrow> string \<Rightarrow> call list \<Rightarrow>
   (exn + TranslationResult option) \<times> TranslationCache \<times> call list" where
  "cache_lookup_or_raise fl md5 svcs [] c txt src tgt calls_made = (Inr None, c, calls_made)"
| "cache_lookup_or_raise fl md5 svcs (service_name # rest) c txt src tgt calls_made =
     (case svcs service_name of
        None \<Rightarrow> cache_lookup_or_raise fl md5 svcs rest c txt src tgt calls_made
      | Some p \<Rightarrow>
         (case get_or_raise fl md5 c txt src tgt service_name of
            (Inl e, c1) \<Rightarrow> (Inl e, c1, calls_made @ [CacheGet service_name])
          | (Inr (Some cached_result), c1) \<Rightarrow>
              (Inr (Some cached_result), c1, calls_made @ [CacheGet service_name])
          | (Inr None, c1) \<Rightarrow>
              cache_lookup_or_raise fl md5 svcs rest c1 txt src tgt
                (calls_made @ [CacheGet service_name])))"

text \<open>
  The second loop: whatever \<open>translate_single\<close>, \<open>apply_terminology\<close> or \<open>cache.store\<close>
  raise is caught by \<open>except Exception\<close> and the next service is tried; after the loop
  comes the emergency result.
\<close>

fun try_services_or_raise ::
  "failures \<Rightarrow> (string \<Rightarrow> string) \<Rightarrow> (string \<Rightarrow> string \<Rightarrow> string \<Rightarrow> string) \<Rightarrow> real \<Rightarrow>
   (string \<Rightarrow> provider option) \<Rightarrow> (string \<times> (string \<times> string) list) list \<Rightarrow> bool \<Rightarrow>
   string list \<Rightarrow> TranslationCache \<Rightarrow> string \<Rightarrow> string \<Rightarrow> string \<Rightarrow> call list \<Rightarrow>
   TranslationResult \<times> TranslationCache \<times> call list" where
  "try_services_or_raise fl md5 re_sub now svcs terms use_cache [] c txt src tgt calls_made =
     (emergency_fallback txt src tgt, c, calls_made)"
| "try_services_or_raise fl md5 re_sub now svcs terms use_cache (service_name # rest) c txt src tgt
     calls_made =
     (case svcs service_name of
        None \<Rightarrow>
          try_services_or_raise fl md5 re_sub now svcs terms use_cache rest c txt src tgt calls_made
      | Some p \<Rightarrow>
         (if \<not> is_available p
          then try_services_or_raise fl md5 re_sub now svcs terms use_cache rest c txt src tgt
                 (calls_made @ [Probe service_name])
          else (case translate_single p
                       \<lparr>req_text = txt, req_source_lang = src, req_target_lang = tgt\<rparr> of
                  Inl e \<Rightarrow>
                    try_services_or_raise fl md5 re_sub now svcs terms use_cache rest c txt src tgt
                      (calls_made @ [Probe service_name, Single service_name])
                | Inr r \<Rightarrow>
                   (case apply_terminology_or_raise fl re_sub terms (translated_text r) src tgt of
                      Inl e \<Rightarrow>
                        try_services_or_raise fl md5 re_sub now svcs terms use_cache rest c
                          txt src tgt (calls_made @ [Probe service_name, Single service_name])
                    | Inr substituted \<Rightarrow>
                       (let r1 = r\<lparr>translated_text := substituted\<rparr>
                        in if use_cache
                           then (case store_or_raise fl md5 now c r1 of
                                   (Some e, c1) \<Rightarrow>
                                     try_services_or_raise fl md5 re_sub now svcs terms use_cache
                                       rest c1 txt src tgt
                                       (calls_made @ [Probe service_name, Single service_name,
                                                      CacheStore service_name])
                                 | (None, c1) \<Rightarrow>
                                     (r1, c1, calls_made @ [Probe service_name, Single service_name,
                                                            CacheStore service_name]))
                           else (r1, c, calls_made @ [Probe service_name, Single service_name]))))))"

definition translate_or_raise ::
  "failures \<Rightarrow> (string \<Rightarrow> string) \<Rightarrow> (string \<Rightarrow> string \<Rightarrow> string \<Rightarrow> string) \<Rightarrow> real \<Rightarrow>
   TranslationManager \<Rightarrow> string \<Rightarrow> string \<Rightarrow> string \<Rightarrow> bool \<Rightarrow>
   (exn + TranslationResult) \<times> TranslationCache \<times> call list" where
  "translate_or_raise fl md5 re_sub now mgr txt src tgt use_cache =
     (if blank txt then (Inr (passthrough txt src tgt), cache mgr, [])
      else
        (case (if use_cache
               then cache_lookup_or_raise fl md5 (services mgr) (service_priority mgr) (cache mgr)
                      txt src tgt []
               else (Inr None, cache mgr, [])) of
           (Inl e, c1, log1) \<Rightarrow> (Inl e, c1, log1)
         | (Inr (Some cached_result), c1, log1) \<Rightarrow> (Inr cached_result, c1, log1)
         | (Inr None, c1, log1) \<Rightarrow>
            (case try_services_or_raise fl md5 re_sub now (services mgr) (terminology mgr)
                    use_cache (service_priority mgr) c1 txt src tgt log1 of
               (r, c2, log2) \<Rightarrow> (Inr r, c2, log2))))"

text \<open>
  Failures for the examples. The Python string \<open>'\ud800'\<close>, a lone surrogate, has no
  UTF-8 encoding; it is written here as the three bytes the \<open>surrogatepass\<close> handler
  gives it, and \<open>encode\<close> raises for every key string that starts with them. A glossary
  entry whose replacement is \<open>\q\<close> makes \<open>re.sub\<close> raise.
\<close>

definition lone_surrogate :: string where
  "lone_surrogate = [CHR 0xED, CHR 0xA0, CHR 0x80]"

definition strict_encoding :: failures where
  "strict_encoding =
     no_failures\<lparr>encode_raises :=
        (\<lambda>s. if take 3 s = lone_surrogate then Some UnicodeEncodeError else None)\<rparr>"

definition bad_escape :: failures where
  "bad_escape =
     no_failures\<lparr>re_sub_raises :=
        (\<lambda>source_term target_term res. if target_term = [CHR 0x5C, CHR ''q'']
                                         then Some RegexError else None)\<rparr>"

text \<open>
  The manager without an API key after \<open>add_term('en', 'fr', 'hello', '\q')\<close>.
\<close>

definition bad_term_manager :: TranslationManager where
  "bad_term_manager =
     keyless_manager\<lparr>terminology :=
        default_terminology @ [(''en-fr'', [(''hello'', [CHR 0x5C, CHR ''q''])])]\<rparr>"

section \<open>The pruning cache (\<^verbatim>\<open>app/core/translation_original.py\<close>)\<close>

text \<open>
  The class \<open>TranslationCache\<close> of the original module has one tier, the SQLite table
  \<open>translations\<close>, bounded by \<open>max_size\<close>. The table is the list of its rows in rowid
  order, each with its primary key \<open>hash\<close>; the column \<open>timestamp\<close> holds the time of
  the last \<open>store\<close> or \<open>get\<close> of the row. The rows, \<open>_generate_key\<close>, the row that
  \<open>store\<close> writes and the result that \<open>get\<close> builds are those of the section before.
\<close>

record OriginalCache =
  max_size :: int
  table_rows :: "(string \<times> translation_row) list"

text \<open>
  \<open>INSERT OR REPLACE\<close>: a row with the same primary key is deleted, the new row gets a new
  rowid.
\<close>

definition insert_or_replace ::
  "string \<Rightarrow> translation_row \<Rightarrow> (string \<times> translation_row) list \<Rightarrow> (string \<times> translation_row) list" where
  "insert_or_replace key row tbl = filter (\<lambda>(k, r). k \<noteq> key) tbl @ [(key, row)]"

text \<open>
  \<open>SELECT hash FROM translations ORDER BY timestamp ASC LIMIT n\<close>. Rows of equal
  timestamp come in rowid order, as the scan of the index on \<open>timestamp\<close> yields them.
\<close>

definition oldest_hashes :: "nat \<Rightarrow> (string \<times> translation_row) list \<Rightarrow> string list" where
  "oldest_hashes n tbl = map fst (take n (sort_key (\<lambda>(k, r). row_timestamp r) tbl))"

text \<open>
  \<open>int(self.max_size * 0.8)\<close>: the product is a double, \<open>int\<close> truncates it towards
  zero. For \<open>max_size\<close> below \<open>2^50\<close> in absolute value that is the integer below; a
  table never has as many rows as that, so \<open>count > max_size\<close> never holds beyond.
\<close>

definition eighty_percent :: "int \<Rightarrow> int" where
  "eighty_percent m = (if 0 \<le> m then (m * 4) div 5 else - ((- m * 4) div 5))"

text \<open>
  \<open>_prune_if_needed\<close>. Inside the branch \<open>to_remove\<close> is not negative, so the \<open>LIMIT\<close>
  is a number of rows.
\<close>

definition prune_if_needed :: "OriginalCache \<Rightarrow> OriginalCache" where
  "prune_if_needed c =
     (let count = int (length (table_rows c)) in
      if count > max_size c
      then (let to_remove = count - eighty_percent (max_size c);
                doomed = oldest_hashes (nat to_remove) (table_rows c)
            in c\<lparr>table_rows := filter (\<lambda>(k, r). k \<notin> set doomed) (table_rows c)\<rparr>)
      else c)"

text \<open>\<open>store\<close> and \<open>get\<close> of the original class, at time \<open>now\<close>.\<close>

definition store_original ::
  "(string \<Rightarrow> string) \<Rightarrow> real \<Rightarrow> OriginalCache \<Rightarrow> TranslationResult \<Rightarrow> OriginalCache" where
  "store_original md5 now c r =
     (let key = generate_key md5 (original_text r) (source_lang r) (target_lang r) (service r)
      in prune_if_needed
           (c\<lparr>table_rows := insert_or_replace key (row_of_result now r) (table_rows c)\<rparr>))"

definition get_original ::
  "(string \<Rightarrow> string) \<Rightarrow> real \<Rightarrow> OriginalCache \<Rightarrow> string \<Rightarrow> string \<Rightarrow> string \<Rightarrow> string \<Rightarrow>
   TranslationResult option \<times> OriginalCache" where
  "get_original md5 now c txt src tgt svc =
     (let key = generate_key md5 txt src tgt svc in
      case map_of (table_rows c) key of
        None \<Rightarrow> (None, c)
      | Some row \<Rightarrow>
          (Some (result_of_row row),
           c\<lparr>table_rows := map (\<lambda>(k, r). if k = key then (k, r\<lparr>row_timestamp := now\<rparr>) else (k, r))
                              (table_rows c)\<rparr>))"

text \<open>
  A cache for the examples: at most five rows, five rows stored at the times 1 to 5,
  the second and the fourth read again at the times 6 and 7.
\<close>

definition numbered_row :: "string \<Rightarrow> real \<Rightarrow> translation_row" where
  "numbered_row t time =
     \<lparr>row_original_text = t, row_translated_text = ''('' @ t @ '')'',
      row_source_lang = ''en'', row_target_lang = ''zh-CN'', row_service = ''DeepL'',
      row_timestamp = time, row_confidence = Some 0.95, row_metadata = None\<rparr>"

definition five_rows :: OriginalCache where
  "five_rows =
     \<lparr>max_size = 5,
      table_rows = [(''a:en:zh-CN:DeepL'', numbered_row ''a'' 1),
                    (''b:en:zh-CN:DeepL'', numbered_row ''b'' 6),
                    (''c:en:zh-CN:DeepL'', numbered_row ''c'' 3),
                    (''d:en:zh-CN:DeepL'', numbered_row ''d'' 7),
                    (''e:en:zh-CN:DeepL'', numbered_row ''e'' 5)]\<rparr>"

definition f_result :: TranslationResult where
  "f_result =
     \<lparr>original_text = ''f'', translated_text = ''(f)'', source_lang = ''en'',
      target_lang = ''zh-CN'', confidence = 0.95, service = ''DeepL'', metadata = []\<rparr>"

section \<open>The pipeline worker (\<^verbatim>\<open>app/gui/improved_processing.py\<close>)\<close>

subsection \<open>Data\<close>

text \<open>
  The Qt signals the worker emits: \<open>log\<close> (the message is given by a short English
  tag, the level is left out), \<open>progress(stage, status, percent)\<close>, \<open>finished(result)\<close>
  and \<open>error(message)\<close>.
\<close>

datatype signal =
    Log string
  | Progress nat string nat
  | Finished pyval
  | Error string

text \<open>
  The state of one \<open>run\<close>: the file system of the checkpoint manager, the stage methods
  called so far with the argument each was given, and the signals emitted so far.
\<close>

record run_state =
  files_now :: fs
  invoked :: "(string \<times> pyval) list"
  signals :: "signal list"

text \<open>
  How a piece of \<open>run\<close> ends: it goes on with a value, it returns early because the
  cancel flag is set, or it raises.
\<close>

datatype flow = Next pyval | Cancelled | Raised exn

text \<open>
  The four blocks of \<open>run\<close> have the same shape; a block is described by the name of
  its stage, the stage number of its progress signal, the key of its payload in the
  stage data, whether its log line after a resume takes \<open>os.path.basename\<close> of the
  payload, and whether \<open>if self.is_cancelled(): return\<close> follows it.
\<close>

record stage_desc =
  stage_name :: string
  stage_number :: nat
  payload_key :: string
  logs_basename :: bool
  cancel_check :: bool

definition stage_table :: "stage_desc list" where
  "stage_table =
     [\<lparr>stage_name = ''audio_extraction'', stage_number = 1, payload_key = ''audio_path'',
       logs_basename = True, cancel_check = True\<rparr>,
      \<lparr>stage_name = ''speech_recognition'', stage_number = 2,
       payload_key = ''recognition_result'', logs_basename = False, cancel_check = True\<rparr>,
      \<lparr>stage_name = ''text_translation'', stage_number = 3,
       payload_key = ''translation_result'', logs_basename = False, cancel_check = True\<rparr>,
      \<lparr>stage_name = ''subtitle_generation'', stage_number = 4, payload_key = ''subtitle_path'',
       logs_basename = True, cancel_check = False\<rparr>]"

subsection \<open>Python on payloads\<close>

text \<open>Truthiness, \<open>stage_data.get(key)\<close> and whether \<open>os.path.basename\<close> accepts a value.\<close>

fun truthy :: "pyval \<Rightarrow> bool" where
  "truthy PyNone = False"
| "truthy (PyBool b) = b"
| "truthy (PyNum x) = (x \<noteq> 0)"
| "truthy (PyStr s) = (s \<noteq> [])"
| "truthy (PyPath p) = True"
| "truthy (PyList xs) = (xs \<noteq> [])"
| "truthy (PyDict kvs) = (kvs \<noteq> [])"
| "truthy PyObject = True"

fun dict_get :: "pyval \<Rightarrow> string \<Rightarrow> exn + pyval" where
  "dict_get (PyDict kvs) key = (case map_of kvs key of None \<Rightarrow> Inr PyNone | Some v \<Rightarrow> Inr v)"
| "dict_get v key = Inl AttributeError"

fun path_like :: "pyval \<Rightarrow> bool" where
  "path_like (PyStr s) = True"
| "path_like (PyPath p) = True"
| "path_like v = False"

subsection \<open>One block of \<open>run\<close>\<close>

text \<open>
  \<open>stage_method name input env\<close> is what the stage method of that name
  (\<open>extract_audio_stage\<close>, \<open>speech_recognition_stage\<close>, \<open>translation_stage\<close>,
  \<open>subtitle_generation_stage\<close>) does when called with \<open>input\<close> on the file system \<open>env\<close>:
  the value it returns or the exception it raises (\<open>InterruptedError\<close> when it sees the
  cancel event set), the file system it leaves (it saves a checkpoint) and the signals
  it emits. A run calls each stage method at most once, so a function of the stage
  name describes whatever the four methods do in that run. The block either calls the
  method, or takes the payload from the checkpoint, emits the 100% progress signal and
  logs the resume.
\<close>

definition stage_block ::
  "(string \<Rightarrow> string) \<Rightarrow> CheckpointManager \<Rightarrow>
   (string \<Rightarrow> pyval \<Rightarrow> fs \<Rightarrow> (exn + pyval) \<times> fs \<times> signal list) \<Rightarrow>
   string \<Rightarrow> string list \<Rightarrow> stage_desc \<Rightarrow> pyval \<Rightarrow> run_state \<Rightarrow> flow \<times> run_state" where
  "stage_block md5 mgr stage_method path completed d input st =
     (if stage_name d \<notin> set completed
      then (case stage_method (stage_name d) input (files_now st) of
              (r, env1, emitted) \<Rightarrow>
                ((case r of Inl e \<Rightarrow> Raised e | Inr output \<Rightarrow> Next output),
                 st\<lparr>files_now := env1,
                    invoked := invoked st @ [(stage_name d, input)],
                    signals := signals st @ emitted\<rparr>))
      else (case get_stage_data md5 mgr (files_now st) path (stage_name d) of
              (Inl e, env1) \<Rightarrow> (Raised e, st\<lparr>files_now := env1\<rparr>)
            | (Inr persisted, env1) \<Rightarrow>
               (let st1 = st\<lparr>files_now := env1\<rparr> in
                case (case persisted of
                        None \<Rightarrow> Inr PyNone
                      | Some v \<Rightarrow> if truthy v then dict_get v (payload_key d) else Inr PyNone) of
                  Inl e \<Rightarrow> (Raised e, st1)
                | Inr payload \<Rightarrow>
                   (let st2 = st1\<lparr>signals := signals st1
                                   @ [Progress (stage_number d) ''complete'' 100]\<rparr>
                    in if logs_basename d \<and> \<not> path_like payload then (Raised TypeError, st2)
                       else (Next payload,
                             st2\<lparr>signals := signals st2 @ [Log ''resumed from checkpoint'']\<rparr>)))))"

text \<open>
  The blocks one after the other: the value a block yields is the argument of the next
  stage method, and it is kept for the final result. The cancel event is set by another
  thread at any time: \<open>cancelled_after n\<close> is what \<open>self.is_cancelled()\<close> answers in the
  \<open>if\<close> that follows the block of stage number \<open>n\<close>.
\<close>

fun run_stages ::
  "(string \<Rightarrow> string) \<Rightarrow> CheckpointManager \<Rightarrow>
   (string \<Rightarrow> pyval \<Rightarrow> fs \<Rightarrow> (exn + pyval) \<times> fs \<times> signal list) \<Rightarrow> (nat \<Rightarrow> bool) \<Rightarrow>
   string \<Rightarrow> string list \<Rightarrow> stage_desc list \<Rightarrow> pyval \<Rightarrow> pyval list \<Rightarrow> run_state \<Rightarrow>
   flow \<times> pyval list \<times> run_state" where
  "run_stages md5 mgr stage_method cancelled_after path completed [] input outputs st =
     (Next input, outputs, st)"
| "run_stages md5 mgr stage_method cancelled_after path completed (d # ds) input outputs st =
     (case stage_block md5 mgr stage_method path completed d input st of
        (Next payload, st1) \<Rightarrow>
          (if cancel_check d \<and> cancelled_after (stage_number d)
           then (Cancelled, outputs @ [payload], st1)
           else run_stages md5 mgr stage_method cancelled_after path completed ds payload
                  (outputs @ [payload]) st1)
      | (Cancelled, st1) \<Rightarrow> (Cancelled, outputs, st1)
      | (Raised e, st1) \<Rightarrow> (Raised e, outputs, st1))"

subsection \<open>\<open>run\<close>\<close>

text \<open>The three \<open>except\<close> clauses of \<open>run\<close>.\<close>

definition handle_exception :: "exn \<Rightarrow> run_state \<Rightarrow> run_state" where
  "handle_exception e st =
     st\<lparr>signals := signals st @
          (case e of
             InterruptedError \<Rightarrow> [Log ''cancelled by the user'', Error ''cancelled'']
           | UserFriendlyError m \<Rightarrow> [Log ''processing failed'', Error m]
           | _ \<Rightarrow> [Log ''processing failed'', Error ''processing failed''])\<rparr>"

text \<open>
  The state in which the first block starts: the start is logged, the checkpoint has
  been loaded, and a non-empty list of completed stages is logged.
\<close>

definition start_state :: "fs \<Rightarrow> string list \<Rightarrow> run_state" where
  "start_state env1 completed =
     \<lparr>files_now = env1, invoked = [],
      signals = [Log ''start processing'']
                @ (if completed \<noteq> [] then [Log ''found checkpoint''] else [])\<rparr>"

text \<open>
  \<open>run\<close>. \<open>assemble path outputs\<close> stands for the statements that build \<open>final_result\<close>
  from the four values (or raise on a value of the wrong shape).
\<close>

definition run ::
  "(string \<Rightarrow> string) \<Rightarrow> CheckpointManager \<Rightarrow>
   (string \<Rightarrow> pyval \<Rightarrow> fs \<Rightarrow> (exn + pyval) \<times> fs \<times> signal list) \<Rightarrow> (nat \<Rightarrow> bool) \<Rightarrow>
   (string \<Rightarrow> pyval list \<Rightarrow> exn + pyval) \<Rightarrow> string \<Rightarrow> fs \<Rightarrow> run_state" where
  "run md5 mgr stage_method cancelled_after assemble path env0 =
     (case load_checkpoint md5 mgr env0 path of
        (Inl e, env1) \<Rightarrow> handle_exception e (start_state env1 [])
      | (Inr checkpoint, env1) \<Rightarrow>
         (let completed = (case checkpoint of None \<Rightarrow> [] | Some ck \<Rightarrow> completed_stages ck)
          in case run_stages md5 mgr stage_method cancelled_after path completed stage_table
                    (PyStr path) [] (start_state env1 completed) of
               (Next p, outputs, st2) \<Rightarrow>
                 (case assemble path outputs of
                    Inl e \<Rightarrow> handle_exception e st2
                  | Inr final_result \<Rightarrow>
                      st2\<lparr>signals := signals st2
                            @ [Log ''all stages completed'', Finished final_result]\<rparr>)
             | (Cancelled, outputs, st2) \<Rightarrow> st2
             | (Raised e, outputs, st2) \<Rightarrow> handle_exception e st2))"

subsection \<open>Concrete inputs used in the examples\<close>

text \<open>
  The checkpoint of \<open>a.mp4\<close> with two stages completed, stage methods that do nothing
  but return their own name, and a trivial assembly.
\<close>

definition a_checkpoint2 :: ProcessingCheckpoint where
  "a_checkpoint2 =
     a_checkpoint\<lparr>completed_stages := [''audio_extraction'', ''speech_recognition''],
                  stage_data := [(''audio_extraction'', PyDict [(''audio_path'', PyStr ''x.wav'')]),
                                 (''speech_recognition'',
                                  PyDict [(''recognition_result'', PyDict [(''segments'', PyList [])])])]\<rparr>"

definition echo_stage :: "string \<Rightarrow> pyval \<Rightarrow> fs \<Rightarrow> (exn + pyval) \<times> fs \<times> signal list" where
  "echo_stage name input env = (Inr (PyStr name), env, [])"

definition list_outputs :: "string \<Rightarrow> pyval list \<Rightarrow> exn + pyval" where
  "list_outputs path outputs = Inr (PyList outputs)"

section \<open>Properties of the checkpoint store\<close>

lemma str_nat_12345671: "str_nat 12345671 = ''12345671''"
  by (simp add: str_nat.simps digit_char_def)

lemma str_nat_1234567: "str_nat 1234567 = ''1234567''"
  by (simp add: str_nat.simps digit_char_def)

lemma str_nat_700000000: "str_nat 700000000 = ''700000000''"
  by (simp add: str_nat.simps digit_char_def)

lemma str_nat_1700000000: "str_nat 1700000000 = ''1700000000''"
  by (simp add: str_nat.simps digit_char_def)

text \<open>
  Claim C8 (job identity separates inputs that differ in size or modification time).
  The identity is the MD5 digest of the path, the size and the modification time written
  one after the other with nothing between them, so the digits can be split in more than
  one way. The file \<open>v.mp4\<close> with 12345671 bytes, modified at 700000000.5, and the same
  path with 1234567 bytes, modified at 1700000000.5, both feed the bytes
  \<open>v.mp412345671700000000.5\<close> to the hash: whatever MD5 computes, the two identities
  are the same string although both size and modification time differ.
\<close>

theorem C8_identity_collision:
  "get_video_hash md5
     (one_video ''v.mp4'' \<lparr>st_size = 12345671, st_mtime = \<lparr>int_part = 700000000, frac_digits = ''5''\<rparr>\<rparr> now)
     ''v.mp4''
   = get_video_hash md5
     (one_video ''v.mp4'' \<lparr>st_size = 1234567, st_mtime = \<lparr>int_part = 1700000000, frac_digits = ''5''\<rparr>\<rparr> now)
     ''v.mp4''"
  by (simp add: get_video_hash_def os_path_exists_def one_video_def str_float_def
        str_nat_12345671 str_nat_1234567 str_nat_700000000 str_nat_1700000000)

subsection \<open>Loading\<close>

lemma load_checkpoint_returns:
  "\<exists>r. fst (load_checkpoint md5 mgr env path) = Inr r"
  by (simp add: load_checkpoint_def Let_def split: prod.splits sum.splits option.splits)

lemma load_checkpoint_try_cases:
  "load_checkpoint_try md5 mgr env path =
     (case files env (get_checkpoint_file md5 mgr env path) of
        None \<Rightarrow> (Inr None, env)
      | Some b \<Rightarrow>
         (case read_error env (get_checkpoint_file md5 mgr env path) of
            Some e \<Rightarrow> (Inl e, env)
          | None \<Rightarrow>
             (case b of
                Undecodable \<Rightarrow> (Inl UnicodeDecodeError, env)
              | Garbled \<Rightarrow> (Inl JSONDecodeError, env)
              | Misshapen \<Rightarrow> (Inl TypeError, env)
              | Stored ck \<Rightarrow>
                 (if validate_checkpoint md5 env ck path then (Inr (Some ck), env)
                  else (Inr None, env)))))"
  by (simp add: load_checkpoint_try_def read_checkpoint_file_def Let_def
      split: option.splits file_body.splits)

lemma validate_checkpoint_iff:
  "validate_checkpoint md5 env ck path \<longleftrightarrow>
     os_path_exists env path \<and> video_hash ck = get_video_hash md5 env path
     \<and> \<not> clock env - timestamp ck > 7 * 24 * 3600"
  by (auto simp: validate_checkpoint_def)

lemma load_checkpoint_none_iff:
  "fst (load_checkpoint md5 mgr env path) = Inr None \<longleftrightarrow>
     (files env (get_checkpoint_file md5 mgr env path) = None
      \<or> read_error env (get_checkpoint_file md5 mgr env path) \<noteq> None
      \<or> files env (get_checkpoint_file md5 mgr env path) = Some Undecodable
      \<or> files env (get_checkpoint_file md5 mgr env path) = Some Garbled
      \<or> files env (get_checkpoint_file md5 mgr env path) = Some Misshapen
      \<or> \<not> os_path_exists env path
      \<or> (\<exists>ck. files env (get_checkpoint_file md5 mgr env path) = Some (Stored ck)
            \<and> (video_hash ck \<noteq> get_video_hash md5 env path
                 \<or> clock env - timestamp ck > 7 * 24 * 3600)))"
  by (auto simp: load_checkpoint_def load_checkpoint_try_cases validate_checkpoint_iff Let_def
      split: option.splits file_body.splits)

lemma load_checkpoint_garbled_deleted:
  assumes "files env (get_checkpoint_file md5 mgr env path) = Some Garbled"
    and "read_error env (get_checkpoint_file md5 mgr env path) = None"
    and "unlink_error env (get_checkpoint_file md5 mgr env path) = None"
  shows "files (snd (load_checkpoint md5 mgr env path)) (get_checkpoint_file md5 mgr env path) = None"
  using assms
  by (simp add: load_checkpoint_def load_checkpoint_try_cases unlink_def Let_def)

lemma load_checkpoint_misshapen_kept:
  assumes "files env (get_checkpoint_file md5 mgr env path) = Some Misshapen"
    and "read_error env (get_checkpoint_file md5 mgr env path) = None"
  shows "snd (load_checkpoint md5 mgr env path) = env"
  using assms
  by (simp add: load_checkpoint_def load_checkpoint_try_cases Let_def)

lemma a_hash: "get_video_hash plain_digest (a_fs body) ''a.mp4'' = ''a.mp42048500.0''"
  by (simp add: get_video_hash_def os_path_exists_def a_fs_def a_stat_def str_float_def
      str_nat.simps digit_char_def plain_digest_def)

lemma a_file: "get_checkpoint_file plain_digest ckpt_dir (a_fs body) ''a.mp4'' = ''ckpt/checkpoint_a.mp42048500.0.json''"
  by (simp add: get_checkpoint_file_def a_hash ckpt_dir_def CheckpointManager_init_def)

lemma load_checkpoint_undecodable_kept:
  assumes "files env (get_checkpoint_file md5 mgr env path) = Some Undecodable"
    and "read_error env (get_checkpoint_file md5 mgr env path) = None"
  shows "snd (load_checkpoint md5 mgr env path) = env"
  using assms
  by (simp add: load_checkpoint_def load_checkpoint_try_cases Let_def)

subsection \<open>Totality of saving and loading\<close>

lemma save_checkpoint_returns:
  "\<exists>b. fst (save_checkpoint md5 mgr env path stage payload kwargs) = Inr b"
proof (cases "save_checkpoint_try md5 mgr env path stage payload kwargs")
  case (Pair r env')
  then show ?thesis
    by (cases r) (auto simp: save_checkpoint_def)
qed

lemma save_checkpoint_raise_False:
  assumes "fst (save_checkpoint_try md5 mgr env path stage payload kwargs) = Inl e"
  shows "fst (save_checkpoint md5 mgr env path stage payload kwargs) = Inr False"
proof (cases "save_checkpoint_try md5 mgr env path stage payload kwargs")
  case (Pair r env')
  with assms show ?thesis
    by (simp add: save_checkpoint_def)
qed

lemma load_checkpoint_raise_None:
  assumes "fst (load_checkpoint_try md5 mgr env path) = Inl e"
  shows "fst (load_checkpoint md5 mgr env path) = Inr None"
proof (cases "load_checkpoint_try md5 mgr env path")
  case (Pair r env')
  with assms show ?thesis
    by (simp add: load_checkpoint_def Let_def split: option.splits)
qed

lemma unlink_keeps_write_error: "write_error (snd (unlink env f)) = write_error env"
  by (simp add: unlink_def split: option.splits)

lemma write_error_raises:
  "write_error env f = Some e \<Longrightarrow> fst (write_checkpoint_file env f ck) = Some e"
  by (simp add: write_checkpoint_file_def)

lemma not_encodable_raises:
  "\<not> list_all (\<lambda>(k, v). json_encodable v) (stage_data ck)
   \<Longrightarrow> fst (write_checkpoint_file env f ck) \<noteq> None"
  by (simp add: write_checkpoint_file_def split: option.splits)

lemma update_member: "(k, v) \<in> set (AList.update k v al)"
  by (induction al) auto

lemma updated_payload_not_encodable:
  assumes "\<not> json_encodable (serialize_for_json payload)"
  shows "\<not> list_all (\<lambda>(k, v). json_encodable v)
            (map (\<lambda>(k, v). (k, serialize_for_json v)) (AList.update stage payload al))"
proof
  assume all: "list_all (\<lambda>(k, v). json_encodable v)
            (map (\<lambda>(k, v). (k, serialize_for_json v)) (AList.update stage payload al))"
  have "(stage, payload) \<in> set (AList.update stage payload al)"
    by (rule update_member)
  with all have "json_encodable (serialize_for_json payload)"
    by (fastforce simp: list_all_iff)
  with assms show False ..
qed

lemma existing_or_new_write_error:
  "write_error (snd (existing_or_new_checkpoint md5 env f path kwargs)) = write_error env"
  by (auto simp: existing_or_new_checkpoint_def unlink_def
      split: option.splits sum.splits prod.splits)

lemma save_checkpoint_try_written:
  assumes "existing_or_new_checkpoint md5 env (get_checkpoint_file md5 mgr env path) path kwargs
           = (Inr ck, env1)"
  shows "save_checkpoint_try md5 mgr env path stage payload kwargs =
           (case write_checkpoint_file env1 (get_checkpoint_file md5 mgr env path)
                   (ck\<lparr>completed_stages :=
                         (if stage \<in> set (completed_stages ck) then completed_stages ck
                          else completed_stages ck @ [stage]),
                       timestamp := clock env1,
                       stage_data := map (\<lambda>(k, v). (k, serialize_for_json v))
                                      (AList.update stage payload (stage_data ck))\<rparr>) of
              (Some e, env2) \<Rightarrow> (Inl e, env2)
            | (None, env2) \<Rightarrow> (Inr True, env2))"
  using assms by (simp add: save_checkpoint_try_def Let_def)

lemma failed_write_raises:
  assumes "fst (write_checkpoint_file env1 f ck) \<noteq> None"
  shows "\<exists>e. fst (case write_checkpoint_file env1 f ck of
                    (Some e, env2) \<Rightarrow> (Inl e, env2)
                  | (None, env2) \<Rightarrow> (Inr True, env2)) = Inl e"
  using assms by (cases "write_checkpoint_file env1 f ck") auto

lemma save_checkpoint_write_error:
  assumes "write_error env (get_checkpoint_file md5 mgr env path) = Some e"
  shows "fst (save_checkpoint md5 mgr env path stage payload kwargs) = Inr False"
proof -
  obtain r env1 where p: "existing_or_new_checkpoint md5 env (get_checkpoint_file md5 mgr env path)
      path kwargs = (r, env1)"
    by force
  then have "write_error env1 = write_error env"
    using existing_or_new_write_error [of md5 env "get_checkpoint_file md5 mgr env path" path kwargs]
    by simp
  with assms have w: "fst (write_checkpoint_file env1 (get_checkpoint_file md5 mgr env path) ck) \<noteq> None"
    for ck
    by (simp add: write_error_raises)
  have "\<exists>e'. fst (save_checkpoint_try md5 mgr env path stage payload kwargs) = Inl e'"
  proof (cases r)
    case (Inl e')
    with p show ?thesis
      by (simp add: save_checkpoint_try_def Let_def)
  next
    case (Inr ck)
    with p show ?thesis
      using failed_write_raises [OF w] by (simp add: save_checkpoint_try_written)
  qed
  then show ?thesis
    using save_checkpoint_raise_False by blast
qed

lemma save_checkpoint_not_encodable:
  assumes "\<not> json_encodable (serialize_for_json payload)"
  shows "fst (save_checkpoint md5 mgr env path stage payload kwargs) = Inr False"
proof -
  obtain r env1 where p: "existing_or_new_checkpoint md5 env (get_checkpoint_file md5 mgr env path)
      path kwargs = (r, env1)"
    by force
  have "\<exists>e'. fst (save_checkpoint_try md5 mgr env path stage payload kwargs) = Inl e'"
  proof (cases r)
    case (Inl e')
    with p show ?thesis
      by (simp add: save_checkpoint_try_def Let_def)
  next
    case (Inr ck)
    have "fst (write_checkpoint_file env1 (get_checkpoint_file md5 mgr env path)
                (ck\<lparr>completed_stages :=
                         (if stage \<in> set (completed_stages ck) then completed_stages ck
                          else completed_stages ck @ [stage]),
                       timestamp := clock env1,
                       stage_data := map (\<lambda>(k, v). (k, serialize_for_json v))
                                      (AList.update stage payload (stage_data ck))\<rparr>)) \<noteq> None"
      using updated_payload_not_encodable [OF assms, of stage "stage_data ck"]
      by (intro not_encodable_raises) simp
    then show ?thesis
      using failed_write_raises p Inr by (simp add: save_checkpoint_try_written)
  qed
  then show ?thesis
    using save_checkpoint_raise_False by blast
qed

lemma load_checkpoint_unreadable:
  assumes "files env (get_checkpoint_file md5 mgr env path) \<noteq> None"
    and "read_error env (get_checkpoint_file md5 mgr env path) \<noteq> None"
  shows "fst (load_checkpoint md5 mgr env path) = Inr None"
  using assms by (simp add: load_checkpoint_none_iff)

lemma load_checkpoint_malformed:
  assumes "files env (get_checkpoint_file md5 mgr env path) = Some Garbled
           \<or> files env (get_checkpoint_file md5 mgr env path) = Some Misshapen"
  shows "fst (load_checkpoint md5 mgr env path) = Inr None"
  using assms by (auto simp: load_checkpoint_none_iff)

text \<open>
  Claim C10 (saving and loading are total). For every digest, manager, file system,
  path, stage, payload and keyword arguments, \<open>save_checkpoint\<close> returns a Boolean and
  \<open>load_checkpoint\<close> returns a record or \<open>None\<close>; neither raises. Every exception that
  leaves the \<open>try\<close> of \<open>save_checkpoint\<close> gives \<open>False\<close>, every exception that leaves the
  \<open>try\<close> of \<open>load_checkpoint\<close> gives \<open>None\<close>. In particular: a file that cannot be
  opened for writing and a payload that JSON cannot encode make \<open>save_checkpoint\<close>
  return \<open>False\<close>; a record that cannot be read, is not JSON or is not a checkpoint makes
  \<open>load_checkpoint\<close> return \<open>None\<close>.
\<close>

theorem C10_save_load_total:
  "(\<exists>b. fst (save_checkpoint md5 mgr env path stage payload kwargs) = Inr b)
   \<and> (\<exists>r. fst (load_checkpoint md5 mgr env path) = Inr r)
   \<and> (\<forall>e. fst (save_checkpoint_try md5 mgr env path stage payload kwargs) = Inl e
          \<longrightarrow> fst (save_checkpoint md5 mgr env path stage payload kwargs) = Inr False)
   \<and> (\<forall>e. fst (load_checkpoint_try md5 mgr env path) = Inl e
          \<longrightarrow> fst (load_checkpoint md5 mgr env path) = Inr None)
   \<and> (write_error env (get_checkpoint_file md5 mgr env path) \<noteq> None
        \<longrightarrow> fst (save_checkpoint md5 mgr env path stage payload kwargs) = Inr False)
   \<and> (\<not> json_encodable (serialize_for_json payload)
        \<longrightarrow> fst (save_checkpoint md5 mgr env path stage payload kwargs) = Inr False)
   \<and> (files env (get_checkpoint_file md5 mgr env path) \<noteq> None
        \<and> read_error env (get_checkpoint_file md5 mgr env path) \<noteq> None
        \<longrightarrow> fst (load_checkpoint md5 mgr env path) = Inr None)
   \<and> (files env (get_checkpoint_file md5 mgr env path) = Some Garbled
        \<or> files env (get_checkpoint_file md5 mgr env path) = Some Misshapen
        \<longrightarrow> fst (load_checkpoint md5 mgr env path) = Inr None)"
  using save_checkpoint_returns [of md5 mgr env path stage payload kwargs]
    load_checkpoint_returns [of md5 mgr env path]
    save_checkpoint_raise_False [of md5 mgr env path stage payload kwargs]
    load_checkpoint_raise_None [of md5 mgr env path]
    save_checkpoint_write_error [of env md5 mgr path _ stage payload kwargs]
    save_checkpoint_not_encodable [of payload md5 mgr env path stage kwargs]
    load_checkpoint_unreadable [of env md5 mgr path]
    load_checkpoint_malformed [of env md5 mgr path]
  by blast

text \<open>
  The theorem at work: saving a recognition result that holds an object JSON cannot
  encode returns \<open>False\<close>, and loading a file that is JSON of the wrong shape returns
  \<open>None\<close>.
\<close>

theorem C10_save_load_total_witness:
  "fst (save_checkpoint plain_digest ckpt_dir (a_fs None) ''a.mp4'' ''speech_recognition''
          (PyDict [(''recognition_result'', PyList [PyNum 1, PyObject])]) []) = Inr False
   \<and> fst (load_checkpoint plain_digest ckpt_dir (a_fs (Some Misshapen)) ''a.mp4'') = Inr None"
proof -
  have f: "files (a_fs body) ''ckpt/checkpoint_a.mp42048500.0.json'' = body" for body
    by (simp add: a_fs_def)
  show ?thesis
    using C10_save_load_total [of plain_digest ckpt_dir "a_fs None" "''a.mp4''"
        "''speech_recognition''" "PyDict [(''recognition_result'', PyList [PyNum 1, PyObject])]" "[]"]
      C10_save_load_total [of plain_digest ckpt_dir "a_fs (Some Misshapen)" "''a.mp4''"]
    by (simp add: a_file f)
qed

subsection \<open>The test of the checkpoint store\<close>

lemma test_file:
  "get_checkpoint_file plain_digest ckpt_dir (test_fs\<lparr>files := fl, clock := t\<rparr>) ''test_video.mp4''
     = ''ckpt/checkpoint_test_video.mp4.json''"
  by (simp add: get_checkpoint_file_def get_video_hash_def os_path_exists_def test_fs_def
      ckpt_dir_def CheckpointManager_init_def plain_digest_def)

lemma test_file0:
  "get_checkpoint_file plain_digest ckpt_dir test_fs ''test_video.mp4''
     = ''ckpt/checkpoint_test_video.mp4.json''"
  by (simp add: get_checkpoint_file_def get_video_hash_def os_path_exists_def test_fs_def
      ckpt_dir_def CheckpointManager_init_def plain_digest_def)

lemma test_save:
  "save_checkpoint plain_digest ckpt_dir test_fs ''test_video.mp4'' ''audio_extraction''
     test_stage_data test_kwargs
   = (Inr True, test_fs\<lparr>files := [''ckpt/checkpoint_test_video.mp4.json'' \<mapsto> Stored test_checkpoint]\<rparr>)"
proof -
  have new: "existing_or_new_checkpoint plain_digest test_fs ''ckpt/checkpoint_test_video.mp4.json''
        ''test_video.mp4'' test_kwargs
      = (Inr (test_checkpoint\<lparr>completed_stages := [], stage_data := []\<rparr>), test_fs)"
    by (simp add: existing_or_new_checkpoint_def new_checkpoint_def test_fs_def test_kwargs_def
        kwargs_get_def get_video_hash_def os_path_exists_def plain_digest_def test_checkpoint_def)
  then have new': "existing_or_new_checkpoint plain_digest test_fs
        (get_checkpoint_file plain_digest ckpt_dir test_fs ''test_video.mp4'')
        ''test_video.mp4'' test_kwargs
      = (Inr (test_checkpoint\<lparr>completed_stages := [], stage_data := []\<rparr>), test_fs)"
    by (simp only: test_file0)
  have "save_checkpoint_try plain_digest ckpt_dir test_fs ''test_video.mp4'' ''audio_extraction''
     test_stage_data test_kwargs
   = (Inr True, test_fs\<lparr>files := [''ckpt/checkpoint_test_video.mp4.json'' \<mapsto> Stored test_checkpoint]\<rparr>)"
    unfolding save_checkpoint_try_written [OF new'] test_file0
    by (simp add: write_checkpoint_file_def test_stage_data_def test_checkpoint_def test_fs_def)
  then show ?thesis
    by (simp add: save_checkpoint_def)
qed

text \<open>
  Claim C3 lists four reasons for \<open>load_checkpoint\<close> to return \<open>None\<close>: no record, a
  record that does not parse, a stored identity that differs from the fresh one, a
  record older than 7 days. The repository's test
  \<^verbatim>\<open>tests/unit/test_checkpoint_fix.py\<close> saves a checkpoint for \<open>test_video.mp4\<close>, a path
  that names no file, loads it back and expects the checkpoint. On that input
  \<open>save_checkpoint\<close> returns \<open>True\<close> and writes a record that exists, parses, carries the
  identity the path has now and, read a second later, is one second old; and
  \<open>load_checkpoint\<close> returns \<open>None\<close>, because \<open>_validate_checkpoint\<close> first asks whether
  the video file exists.
\<close>

theorem C3_saved_checkpoint_not_loaded:
  "save_checkpoint plain_digest ckpt_dir test_fs ''test_video.mp4'' ''audio_extraction''
     test_stage_data test_kwargs
     = (Inr True, test_fs\<lparr>files := [''ckpt/checkpoint_test_video.mp4.json'' \<mapsto> Stored test_checkpoint]\<rparr>)
   \<and> get_checkpoint_file plain_digest ckpt_dir
        (test_fs\<lparr>files := [''ckpt/checkpoint_test_video.mp4.json'' \<mapsto> Stored test_checkpoint],
                 clock := 1001\<rparr>) ''test_video.mp4''
       = ''ckpt/checkpoint_test_video.mp4.json''
   \<and> read_checkpoint_file
        (test_fs\<lparr>files := [''ckpt/checkpoint_test_video.mp4.json'' \<mapsto> Stored test_checkpoint],
                 clock := 1001\<rparr>) ''ckpt/checkpoint_test_video.mp4.json''
       = Inr test_checkpoint
   \<and> video_hash test_checkpoint
       = get_video_hash plain_digest
           (test_fs\<lparr>files := [''ckpt/checkpoint_test_video.mp4.json'' \<mapsto> Stored test_checkpoint],
                    clock := 1001\<rparr>) ''test_video.mp4''
   \<and> 1001 - timestamp test_checkpoint \<le> 7 * 24 * 3600
   \<and> fst (load_checkpoint plain_digest ckpt_dir
             (test_fs\<lparr>files := [''ckpt/checkpoint_test_video.mp4.json'' \<mapsto> Stored test_checkpoint],
                      clock := 1001\<rparr>) ''test_video.mp4'')
       = Inr None"
proof -
  let ?env = "test_fs\<lparr>files := [''ckpt/checkpoint_test_video.mp4.json'' \<mapsto> Stored test_checkpoint],
                      clock := 1001\<rparr>"
  have "\<not> os_path_exists ?env ''test_video.mp4''"
    by (simp add: os_path_exists_def test_fs_def)
  then have "fst (load_checkpoint plain_digest ckpt_dir ?env ''test_video.mp4'') = Inr None"
    by (simp add: load_checkpoint_none_iff)
  moreover have "read_checkpoint_file ?env ''ckpt/checkpoint_test_video.mp4.json'' = Inr test_checkpoint"
    by (simp add: read_checkpoint_file_def test_fs_def)
  moreover have "video_hash test_checkpoint = get_video_hash plain_digest ?env ''test_video.mp4''"
    by (simp add: test_checkpoint_def get_video_hash_def os_path_exists_def test_fs_def
        plain_digest_def)
  moreover have "1001 - timestamp test_checkpoint \<le> 7 * 24 * 3600"
    by (simp add: test_checkpoint_def)
  ultimately show ?thesis
    using test_save test_file by simp
qed

section \<open>Properties of the retry wrapper\<close>

lemma should_retry_retryable:
  assumes "retryable config e" and "int n < max_attempts config"
  shows "manager_should_retry config e n"
  using assms by (simp add: manager_should_retry_def retryable_def split: option.splits)

lemma should_retry_last:
  assumes "max_attempts config \<le> int n"
  shows "\<not> manager_should_retry config e n"
  using assms by (simp add: manager_should_retry_def)

lemma should_retry_not_retryable:
  assumes "\<not> retryable config e"
  shows "\<not> manager_should_retry config e n"
  using assms by (auto simp: manager_should_retry_def retryable_def split: option.splits)

text \<open>
  One round of the loop when the call raises something retryable, the attempt is not
  the last one, and the delay is computed and slept.
\<close>

lemma retry_loop_round:
  assumes "func (calls rn) = Inl e" and "retryable config e"
    and "Suc a < nat (max_attempts config)"
    and "calculate_delay ops config (Suc a) = Inr d" and "time_sleep ops d = None"
  shows "retry_loop ops config (max_attempts config) func (a # rest) rn
     = retry_loop ops config (max_attempts config) func rest
         (rn\<lparr>calls := calls rn + 1,
             history := history rn @ [\<lparr>attempt_no = a + 1, success = False, exception = Some e\<rparr>],
             sleeps := sleeps rn @ [d]\<rparr>)"
proof -
  from assms(3) have lt: "int (a + 1) < max_attempts config" and lt': "int a < max_attempts config - 1"
    by linarith+
  have "manager_should_retry config e (a + 1)"
    using assms(2) lt by (rule should_retry_retryable)
  with assms(1,4,5) lt' show ?thesis
    by (simp add: Let_def)
qed

text \<open>
  The loop from attempt \<open>a\<close> on, when every call raises something retryable and every
  delay is computed and slept: it runs to the last attempt, sleeping after each one
  but the last.
\<close>

lemma retry_loop_always_failing:
  assumes fails: "\<And>k. func k = Inl (errs k)"
    and retr: "\<And>k. retryable config (errs k)"
    and ok: "\<And>n. a < n \<Longrightarrow> n < nat (max_attempts config)
               \<Longrightarrow> calculate_delay ops config n = Inr (d n) \<and> time_sleep ops (d n) = None"
    and a: "a < nat (max_attempts config)"
    and c: "calls rn = a"
  shows "outcome (retry_loop ops config (max_attempts config) func [a..<nat (max_attempts config)] rn)
           = Inl (errs (nat (max_attempts config) - 1))
         \<and> calls (retry_loop ops config (max_attempts config) func [a..<nat (max_attempts config)] rn)
           = nat (max_attempts config)
         \<and> sleeps (retry_loop ops config (max_attempts config) func [a..<nat (max_attempts config)] rn)
           = sleeps rn @ map d [Suc a..<nat (max_attempts config)]"
  using a c ok
proof (induction "nat (max_attempts config) - a" arbitrary: a rn)
  case 0
  then show ?case by simp
next
  case (Suc m)
  have range: "[a..<nat (max_attempts config)] = a # [Suc a..<nat (max_attempts config)]"
    using Suc.prems(1) by (simp add: upt_conv_Cons)
  show ?case
  proof (cases "Suc a = nat (max_attempts config)")
    case True
    then have last: "max_attempts config \<le> int (a + 1)"
      by linarith
    have "\<not> manager_should_retry config (errs a) (a + 1)"
      using last by (rule should_retry_last)
    moreover have "nat (max_attempts config) - 1 = a"
      using True by simp
    ultimately show ?thesis
      using True Suc.prems(2) fails [of a] range
      by (simp add: Let_def)
  next
    case False
    with Suc.prems(1) have more: "Suc a < nat (max_attempts config)"
      by simp
    define rn1 where "rn1 = rn
      \<lparr>calls := calls rn + 1,
       history := history rn @ [\<lparr>attempt_no = a + 1, success = False, exception = Some (errs a)\<rparr>],
       sleeps := sleeps rn @ [d (Suc a)]\<rparr>"
    have dl: "calculate_delay ops config (Suc a) = Inr (d (Suc a))" "time_sleep ops (d (Suc a)) = None"
      using Suc.prems(3) [of "Suc a"] more by simp_all
    have "func (calls rn) = Inl (errs a)"
      using fails Suc.prems(2) by simp
    from retry_loop_round [where func = func and rn = rn, OF this retr [of a] more dl]
    have step: "retry_loop ops config (max_attempts config) func [a..<nat (max_attempts config)] rn
        = retry_loop ops config (max_attempts config) func [Suc a..<nat (max_attempts config)] rn1"
      by (simp add: range rn1_def)
    have m: "m = nat (max_attempts config) - Suc a"
      using Suc.hyps(2) by simp
    have c1: "calls rn1 = Suc a"
      using Suc.prems(2) by (simp add: rn1_def)
    have s1: "sleeps rn1 = sleeps rn @ [d (Suc a)]"
      by (simp add: rn1_def)
    have ok1: "calculate_delay ops config n = Inr (d n) \<and> time_sleep ops (d n) = None"
      if "Suc a < n" "n < nat (max_attempts config)" for n
      using Suc.prems(3) [of n] that by simp
    have rest: "[Suc a..<nat (max_attempts config)] = Suc a # [Suc (Suc a)..<nat (max_attempts config)]"
      using more by (simp add: upt_conv_Cons)
    show ?thesis
      using Suc.hyps(1) [OF m more c1 ok1] step s1 rest by simp
  qed
qed

text \<open>
  The same loop when the delay after failed attempt \<open>m\<close> cannot be computed or cannot
  be slept: the exception of \<open>calculate_delay\<close> or \<open>time.sleep\<close> leaves the wrapper after
  \<open>m\<close> calls.
\<close>

lemma retry_loop_delay_raises:
  assumes fails: "\<And>k. func k = Inl (errs k)"
    and retr: "\<And>k. retryable config (errs k)"
    and stop: "calculate_delay ops config m = Inl e
               \<or> (\<exists>d. calculate_delay ops config m = Inr d \<and> time_sleep ops d = Some e)"
    and m: "m < nat (max_attempts config)"
    and ok: "\<And>n. a < n \<Longrightarrow> n < m
               \<Longrightarrow> \<exists>d. calculate_delay ops config n = Inr d \<and> time_sleep ops d = None"
    and a: "a < m"
    and c: "calls rn = a"
  shows "outcome (retry_loop ops config (max_attempts config) func [a..<nat (max_attempts config)] rn)
           = Inl e
         \<and> calls (retry_loop ops config (max_attempts config) func [a..<nat (max_attempts config)] rn)
           = m
         \<and> length (sleeps (retry_loop ops config (max_attempts config) func
                             [a..<nat (max_attempts config)] rn))
           = length (sleeps rn) + (m - 1 - a)"
  using a c ok
proof (induction "m - a" arbitrary: a rn)
  case 0
  then show ?case by simp
next
  case (Suc k)
  have aN: "a < nat (max_attempts config)"
    using Suc.prems(1) m by simp
  have range: "[a..<nat (max_attempts config)] = a # [Suc a..<nat (max_attempts config)]"
    using aN by (simp add: upt_conv_Cons)
  have f: "func (calls rn) = Inl (errs a)"
    using fails Suc.prems(2) by simp
  show ?case
  proof (cases "Suc a = m")
    case True
    with m have lt: "int (a + 1) < max_attempts config" and lt': "int a < max_attempts config - 1"
      by linarith+
    have again: "manager_should_retry config (errs a) (a + 1)"
      using retr lt by (rule should_retry_retryable)
    from stop show ?thesis
    proof
      assume "calculate_delay ops config m = Inl e"
      with True again lt' f Suc.prems(2) range show ?thesis
        by (simp add: Let_def)
    next
      assume "\<exists>d. calculate_delay ops config m = Inr d \<and> time_sleep ops d = Some e"
      then obtain d where "calculate_delay ops config m = Inr d" "time_sleep ops d = Some e"
        by blast
      with True again lt' f Suc.prems(2) range show ?thesis
        by (simp add: Let_def)
    qed
  next
    case False
    with Suc.prems(1) have more: "Suc a < m"
      by simp
    with m have moreN: "Suc a < nat (max_attempts config)"
      by simp
    from Suc.prems(3) [of "Suc a"] more obtain d where
      dl: "calculate_delay ops config (Suc a) = Inr d" "time_sleep ops d = None"
      by auto
    define rn1 where "rn1 = rn
      \<lparr>calls := calls rn + 1,
       history := history rn @ [\<lparr>attempt_no = a + 1, success = False, exception = Some (errs a)\<rparr>],
       sleeps := sleeps rn @ [d]\<rparr>"
    from retry_loop_round [where func = func and rn = rn, OF f retr [of a] moreN dl]
    have step: "retry_loop ops config (max_attempts config) func [a..<nat (max_attempts config)] rn
        = retry_loop ops config (max_attempts config) func [Suc a..<nat (max_attempts config)] rn1"
      by (simp add: range rn1_def)
    have k: "k = m - Suc a"
      using Suc.hyps(2) by simp
    have c1: "calls rn1 = Suc a"
      using Suc.prems(2) by (simp add: rn1_def)
    have s1: "length (sleeps rn1) = length (sleeps rn) + 1"
      by (simp add: rn1_def)
    have ok1: "\<exists>d. calculate_delay ops config n = Inr d \<and> time_sleep ops d = None"
      if "Suc a < n" "n < m" for n
      using Suc.prems(3) [of n] that by simp
    show ?thesis
      using Suc.hyps(1) [OF k more c1 ok1] step s1 more by simp
  qed
qed

lemma retry_loop_first_not_retryable:
  assumes "func 0 = Inl e" and "\<not> retryable config e" and "calls rn = 0" and "sleeps rn = []"
  shows "outcome (retry_loop ops config limit func (a # rest) rn) = Inl e
         \<and> calls (retry_loop ops config limit func (a # rest) rn) = 1
         \<and> sleeps (retry_loop ops config limit func (a # rest) rn) = []"
  using assms should_retry_not_retryable [of config e "a + 1"]
  by (simp add: Let_def)

lemma exact_default:
  "max_attempts (RetryConfig_default exact_ops) = 3"
  "strategy (RetryConfig_default exact_ops) = EXPONENTIAL_BACKOFF"
  "base_delay (RetryConfig_default exact_ops) = 1"
  "backoff_factor (RetryConfig_default exact_ops) = 2"
  "max_delay (RetryConfig_default exact_ops) = 60"
  "retry_on_exceptions (RetryConfig_default exact_ops) = (\<lambda>e. True)"
  "should_retry (RetryConfig_default exact_ops) = None"
  by (simp_all add: RetryConfig_default_def exact_ops_def)

lemma max_double_large: "64 < max_double"
proof -
  have "(64 :: real) \<le> 2 ^ 971"
    using power_increasing [of 6 971 "2 :: real"] by simp
  moreover have "(2 :: real) ^ 971 < (2 ^ 53 - 1) * 2 ^ 971"
    by simp
  ultimately show ?thesis
    by (simp add: max_double_def)
qed

lemma exact_pow_small:
  assumes "\<bar>x ^ n\<bar> \<le> 64"
  shows "float_pow exact_ops x n = Inr (x ^ n)"
  using assms max_double_large by (simp add: exact_ops_def)

text \<open>
  Claim C4, as stated, gives the exponential back-off as
  \<open>baseDelay \<times> multiplier^(n - 1)\<close> after failed attempt \<open>n\<close>. \<open>wrapper\<close> calls
  \<open>calculate_delay(attempt + 1)\<close>, which raises the factor to that 1-based number. With
  the default configuration (3 attempts, base delay 1, factor 2, cap 60) and an
  operation that always raises \<open>RetryableError\<close> the wrapper sleeps 2 and then 4 seconds;
  the claimed formula gives 1 and 2.
\<close>

theorem C4_counterexample_exponent:
  "sleeps (retry_with_config exact_ops (Some (RetryConfig_default exact_ops))
             (\<lambda>k. Inl RetryableError :: exn + unit))
     = [Delay 2, Delay 4]
   \<and> map (specified_delay exact_ops (RetryConfig_default exact_ops)) [1, 2]
       = [Inr (Delay 1), Inr (Delay 2)]"
proof -
  have p: "float_pow exact_ops 2 0 = Inr 1" "float_pow exact_ops 2 (Suc 0) = Inr 2"
    "float_pow exact_ops 2 (Suc (Suc 0)) = Inr 4"
    using exact_pow_small [of 2 0] exact_pow_small [of 2 1] exact_pow_small [of 2 2]
    by (simp_all add: eval_nat_numeral)
  have o: "float_mul exact_ops x y = x * y" "float_less exact_ops x y = (x < y)"
    "sleep_raises exact_ops x = (if x < 0 then Some ValueError else None)" for x y
    by (simp_all add: exact_ops_def)
  show ?thesis
    by (simp add: retry_with_config_def exact_default manager_should_retry_def
        calculate_delay_def specified_delay_def time_sleep_def py_min_def p o
        eval_nat_numeral Let_def)
qed

text \<open>
  Claim C4, amended. Let \<open>max_attempts \<ge> 1\<close>.

  \<^item> If every call raises a retryable exception and each delay after a failed attempt
    \<open>n = 1, ..., max_attempts - 1\<close> can be computed and slept, the operation is called
    exactly \<open>max_attempts\<close> times, the exception of the last call is re-raised, and the
    sleep after failed attempt \<open>n\<close> is \<open>0\<close> for the immediate strategy,
    \<open>min(base_delay * n, max_delay)\<close> for the linear one,
    \<open>min(base_delay * backoff_factor ** n, max_delay)\<close> for the exponential one (and
    \<open>min(base_delay, max_delay)\<close> for the custom one), in the arithmetic of the floats.
  \<^item> If the first call raises an exception that is not retryable, the operation is
    called exactly once, that exception is re-raised and nothing sleeps.
  \<^item> If every call raises a retryable exception and the delay after failed attempt
    \<open>m < max_attempts\<close> is the first that cannot be computed (\<open>backoff_factor ** m\<close>
    raises \<open>OverflowError\<close>) or slept (\<open>time.sleep\<close> rejects it), the operation is called
    exactly \<open>m\<close> times and that exception leaves the wrapper.
\<close>

theorem C4_retry_bound:
  assumes "1 \<le> max_attempts config"
  shows "((\<forall>k. \<exists>e. func k = Inl e \<and> retryable config e)
           \<and> (\<forall>n. 1 \<le> n \<and> n < nat (max_attempts config)
                 \<longrightarrow> (\<exists>d. calculate_delay ops config n = Inr d \<and> time_sleep ops d = None))
          \<longrightarrow> calls (retry_with_config ops (Some config) func) = nat (max_attempts config)
              \<and> outcome (retry_with_config ops (Some config) func)
                  = func (nat (max_attempts config) - 1)
              \<and> map Inr (sleeps (retry_with_config ops (Some config) func))
                  = map (\<lambda>n. if strategy config = IMMEDIATE then Inr NoDelay
                              else if strategy config = LINEAR_BACKOFF
                              then (case float_mul_int ops (base_delay config) n of
                                      Inl e \<Rightarrow> Inl e
                                    | Inr x \<Rightarrow> Inr (Delay (py_min ops x (max_delay config))))
                              else if strategy config = EXPONENTIAL_BACKOFF
                              then (case float_pow ops (backoff_factor config) n of
                                      Inl e \<Rightarrow> Inl e
                                    | Inr p \<Rightarrow> Inr (Delay (py_min ops
                                                 (float_mul ops (base_delay config) p)
                                                 (max_delay config))))
                              else Inr (Delay (py_min ops (base_delay config) (max_delay config))))
                        [1..<nat (max_attempts config)])
         \<and> ((\<exists>e. func 0 = Inl e \<and> \<not> retryable config e)
          \<longrightarrow> calls (retry_with_config ops (Some config) func) = 1
              \<and> outcome (retry_with_config ops (Some config) func) = func 0
              \<and> sleeps (retry_with_config ops (Some config) func) = [])
         \<and> ((\<forall>k. \<exists>e. func k = Inl e \<and> retryable config e)
           \<and> 1 \<le> m \<and> m < nat (max_attempts config)
           \<and> (\<forall>n. 1 \<le> n \<and> n < m
                 \<longrightarrow> (\<exists>d. calculate_delay ops config n = Inr d \<and> time_sleep ops d = None))
           \<and> (calculate_delay ops config m = Inl e
               \<or> (\<exists>d. calculate_delay ops config m = Inr d \<and> time_sleep ops d = Some e))
          \<longrightarrow> calls (retry_with_config ops (Some config) func) = m
              \<and> outcome (retry_with_config ops (Some config) func) = Inl e
              \<and> length (sleeps (retry_with_config ops (Some config) func)) = m - 1)"
proof -
  let ?N = "nat (max_attempts config)"
  let ?R = "retry_with_config ops (Some config) func"
  let ?start = "\<lparr>outcome = Inl (PyException ''not started''), calls = 0, sleeps = [],
                 history = []\<rparr> :: ('a, 'b) retry_run"
  let ?form = "\<lambda>n. if strategy config = IMMEDIATE then Inr NoDelay
          else if strategy config = LINEAR_BACKOFF
          then (case float_mul_int ops (base_delay config) n of
                  Inl e \<Rightarrow> Inl e
                | Inr x \<Rightarrow> Inr (Delay (py_min ops x (max_delay config))))
          else if strategy config = EXPONENTIAL_BACKOFF
          then (case float_pow ops (backoff_factor config) n of
                  Inl e \<Rightarrow> Inl e
                | Inr p \<Rightarrow> Inr (Delay (py_min ops (float_mul ops (base_delay config) p)
                                       (max_delay config))))
          else Inr (Delay (py_min ops (base_delay config) (max_delay config)))"
  define errs where "errs k = (case func k of Inl e \<Rightarrow> e | Inr v \<Rightarrow> PyException [])" for k
  define d where "d n = (case calculate_delay ops config n of Inr x \<Rightarrow> x | Inl e \<Rightarrow> NoDelay)" for n
  have pos: "0 < ?N"
    using assms(1) by simp
  have R: "?R = retry_loop ops config (max_attempts config) func [0..<?N] ?start"
    by (simp add: retry_with_config_def Let_def)
  have form: "calculate_delay ops config n = ?form n" for n
    by (simp add: calculate_delay_def split: sum.splits)
  have part1: "calls ?R = ?N \<and> outcome ?R = func (?N - 1)
               \<and> map Inr (sleeps ?R) = map ?form [1..<?N]"
    if h: "(\<forall>k. \<exists>e. func k = Inl e \<and> retryable config e)
           \<and> (\<forall>n. 1 \<le> n \<and> n < ?N
                 \<longrightarrow> (\<exists>d. calculate_delay ops config n = Inr d \<and> time_sleep ops d = None))"
  proof -
    have fails: "func k = Inl (errs k)" for k
      using h by (auto simp: errs_def dest: spec [of _ k])
    have retr: "retryable config (errs k)" for k
      using h by (auto simp: errs_def dest: spec [of _ k])
    have ok: "calculate_delay ops config n = Inr (d n) \<and> time_sleep ops (d n) = None"
      if "0 < n" "n < ?N" for n
    proof -
      from h that obtain x where "calculate_delay ops config n = Inr x" "time_sleep ops x = None"
        by (metis One_nat_def Suc_leI)
      then show ?thesis
        by (simp add: d_def)
    qed
    have c0: "calls ?start = 0"
      by simp
    note loop = retry_loop_always_failing [of func errs config 0 ops d ?start,
        OF fails retr ok pos c0]
    have "map Inr (map d [Suc 0..<?N]) = map (calculate_delay ops config) [Suc 0..<?N]"
      using ok by simp
    also have "\<dots> = map ?form [Suc 0..<?N]"
      by (rule map_cong [OF refl]) (rule form)
    finally have sl: "map Inr (map d [Suc 0..<?N]) = map ?form [Suc 0..<?N]" .
    from loop have "calls ?R = ?N" "outcome ?R = func (?N - 1)" "sleeps ?R = map d [Suc 0..<?N]"
      using fails by (simp_all add: R)
    with sl show ?thesis
      by simp
  qed
  have part2: "calls ?R = 1 \<and> outcome ?R = func 0 \<and> sleeps ?R = []"
    if h: "\<exists>e. func 0 = Inl e \<and> \<not> retryable config e"
  proof -
    from h obtain e where e: "func 0 = Inl e" "\<not> retryable config e"
      by blast
    have range: "[0..<?N] = 0 # [1..<?N]"
      using assms(1) by (simp add: upt_conv_Cons)
    have s0: "calls ?start = 0" "sleeps ?start = []"
      by simp_all
    note first = retry_loop_first_not_retryable [of func e config ?start ops
        "max_attempts config" 0 "[1..<?N]", OF e s0]
    then show ?thesis
      using e(1) by (simp add: R range)
  qed
  have part3: "calls ?R = m \<and> outcome ?R = Inl e \<and> length (sleeps ?R) = m - 1"
    if h: "(\<forall>k. \<exists>e. func k = Inl e \<and> retryable config e)
           \<and> 1 \<le> m \<and> m < ?N
           \<and> (\<forall>n. 1 \<le> n \<and> n < m
                 \<longrightarrow> (\<exists>d. calculate_delay ops config n = Inr d \<and> time_sleep ops d = None))
           \<and> (calculate_delay ops config m = Inl e
               \<or> (\<exists>d. calculate_delay ops config m = Inr d \<and> time_sleep ops d = Some e))"
  proof -
    have fails: "func k = Inl (errs k)" for k
      using h by (auto simp: errs_def dest: spec [of _ k])
    have retr: "retryable config (errs k)" for k
      using h by (auto simp: errs_def dest: spec [of _ k])
    have stop: "calculate_delay ops config m = Inl e
               \<or> (\<exists>d. calculate_delay ops config m = Inr d \<and> time_sleep ops d = Some e)"
      and m: "m < ?N" and m0: "0 < m"
      using h by simp_all
    have ok: "\<exists>d. calculate_delay ops config n = Inr d \<and> time_sleep ops d = None"
      if "0 < n" "n < m" for n
      using h that by (metis One_nat_def Suc_leI)
    have c0: "calls ?start = 0"
      by simp
    from retry_loop_delay_raises [of func errs config ops m e 0 ?start,
        OF fails retr stop m ok m0 c0]
    show ?thesis
      by (simp add: R)
  qed
  show ?thesis
    using part1 part2 part3 by (intro conjI impI) blast+
qed

text \<open>
  The theorem at work. On the default configuration with exact arithmetic: three
  calls and sleeps of 2 and 4 seconds when every call raises \<open>RetryableError\<close>; one call
  and no sleep when the first call raises \<open>NonRetryableError\<close>. On the configuration
  with the factor \<open>1e200\<close> and five attempts: the first delay is capped to 60 seconds,
  the second cannot be computed, and \<open>OverflowError\<close> leaves the wrapper after two
  calls.
\<close>

theorem C4_retry_bound_witness:
  "calls (retry_with_config exact_ops (Some (RetryConfig_default exact_ops))
            (\<lambda>k. Inl RetryableError :: exn + unit)) = 3
   \<and> outcome (retry_with_config exact_ops (Some (RetryConfig_default exact_ops))
                (\<lambda>k. Inl RetryableError :: exn + unit)) = Inl RetryableError
   \<and> sleeps (retry_with_config exact_ops (Some (RetryConfig_default exact_ops))
               (\<lambda>k. Inl RetryableError :: exn + unit)) = [Delay 2, Delay 4]
   \<and> calls (retry_with_config exact_ops (Some (RetryConfig_default exact_ops))
              (\<lambda>k. Inl NonRetryableError :: exn + unit)) = 1
   \<and> sleeps (retry_with_config exact_ops (Some (RetryConfig_default exact_ops))
               (\<lambda>k. Inl NonRetryableError :: exn + unit)) = []
   \<and> calls (retry_with_config exact_ops (Some steep_config)
              (\<lambda>k. Inl RetryableError :: exn + unit)) = 2
   \<and> outcome (retry_with_config exact_ops (Some steep_config)
                (\<lambda>k. Inl RetryableError :: exn + unit)) = Inl OverflowError"
proof -
  let ?dflt = "RetryConfig_default exact_ops"
  have cfg: "1 \<le> max_attempts ?dflt" "1 \<le> max_attempts steep_config"
    by (simp_all add: exact_default steep_config_def)
  have r: "retryable ?dflt RetryableError" "\<not> retryable ?dflt NonRetryableError"
    "retryable steep_config RetryableError"
    by (simp_all add: retryable_def exact_default steep_config_def)
  have p: "float_pow exact_ops 2 (Suc 0) = Inr 2" "float_pow exact_ops 2 2 = Inr 4"
    using exact_pow_small [of 2 1] exact_pow_small [of 2 2] by simp_all
  have o: "float_mul exact_ops x y = x * y" "float_less exact_ops x y = (x < y)"
    "sleep_raises exact_ops x = (if x < 0 then Some ValueError else None)" for x y
    by (simp_all add: exact_ops_def)
  have d1: "calculate_delay exact_ops ?dflt (Suc 0) = Inr (Delay 2)"
    and d2: "calculate_delay exact_ops ?dflt 2 = Inr (Delay 4)"
    by (simp_all add: calculate_delay_def exact_default p o py_min_def)
  have fine: "\<forall>n. 1 \<le> n \<and> n < nat (max_attempts ?dflt)
      \<longrightarrow> (\<exists>d. calculate_delay exact_ops ?dflt n = Inr d \<and> time_sleep exact_ops d = None)"
  proof (intro allI impI)
    fix n :: nat
    assume "1 \<le> n \<and> n < nat (max_attempts ?dflt)"
    then have "n = Suc 0 \<or> n = 2"
      by (auto simp: exact_default)
    then show "\<exists>d. calculate_delay exact_ops ?dflt n = Inr d \<and> time_sleep exact_ops d = None"
      using d1 d2 by (auto simp: time_sleep_def o)
  qed
  have u: "[Suc 0..<3] = [Suc 0, 2]"
    by (simp add: eval_nat_numeral)
  have big: "max_double < steep_factor ^ 2"
  proof -
    have "max_double < 2 ^ 1024"
      by (simp add: max_double_def)
    also have "(2 :: real) ^ 1024 \<le> (10 ^ 200) ^ 2"
      by simp
    finally show ?thesis
      by (simp only: steep_factor_def)
  qed
  have small: "steep_factor \<le> max_double"
  proof -
    have "(10 :: real) ^ 200 \<le> 16 ^ 200"
      by (rule power_mono) simp_all
    also have "\<dots> \<le> 2 ^ 971"
      by simp
    also have "\<dots> \<le> max_double"
      by (simp add: max_double_def)
    finally show ?thesis
      by (simp only: steep_factor_def)
  qed
  have sixty: "60 < steep_factor"
  proof -
    have "(60 :: real) < 10 ^ 2"
      by simp
    also have "\<dots> \<le> 10 ^ 200"
      by (rule power_increasing) simp_all
    finally show ?thesis
      by (simp only: steep_factor_def)
  qed
  have s: "max_attempts steep_config = 5" "strategy steep_config = EXPONENTIAL_BACKOFF"
    "base_delay steep_config = 1" "backoff_factor steep_config = steep_factor"
    "max_delay steep_config = 60"
    by (simp_all add: steep_config_def exact_default)
  have sp1: "float_pow exact_ops steep_factor (Suc 0) = Inr steep_factor"
    using small sixty by (simp add: exact_ops_def)
  have sp2: "float_pow exact_ops steep_factor 2 = Inl OverflowError"
    using big sixty by (simp add: exact_ops_def)
  have sd1: "calculate_delay exact_ops steep_config (Suc 0) = Inr (Delay 60)"
    using sixty by (simp add: calculate_delay_def s sp1 o py_min_def)
  have sd2: "calculate_delay exact_ops steep_config 2 = Inl OverflowError"
    by (simp add: calculate_delay_def s sp2)
  have sfine: "\<forall>n. 1 \<le> n \<and> n < 2
      \<longrightarrow> (\<exists>d. calculate_delay exact_ops steep_config n = Inr d \<and> time_sleep exact_ops d = None)"
  proof (intro allI impI)
    fix n :: nat
    assume "1 \<le> n \<and> n < 2"
    then have "n = Suc 0"
      by auto
    then show "\<exists>d. calculate_delay exact_ops steep_config n = Inr d \<and> time_sleep exact_ops d = None"
      using sd1 by (simp add: time_sleep_def o)
  qed
  show ?thesis
    using C4_retry_bound [OF cfg(1), of "\<lambda>k. Inl RetryableError :: exn + unit" exact_ops 0 undefined]
      C4_retry_bound [OF cfg(1), of "\<lambda>k. Inl NonRetryableError :: exn + unit" exact_ops 0 undefined]
      C4_retry_bound [OF cfg(2), of "\<lambda>k. Inl RetryableError :: exn + unit" exact_ops 2 OverflowError]
      r fine sfine sd2
    by (auto simp add: exact_default u p o py_min_def s map_eq_Cons_conv)
qed

section \<open>Properties of the translation cache\<close>

subsection \<open>The memory tier\<close>

lemma keys_delete: "fst ` set (AList.delete k al) = fst ` set al - {k}"
  by (induction al) auto

lemma evict_oldest_within_capacity:
  "int (length mem) \<le> capacity \<Longrightarrow> evict_oldest capacity mem order = (None, mem, order)"
  by (cases order) simp_all

lemma evict_oldest_ok:
  assumes "0 \<le> capacity" and "fst ` set mem \<subseteq> set order" and "distinct (map fst mem)"
  shows "\<exists>mem' order'. evict_oldest capacity mem order = (None, mem', order')
           \<and> int (length mem') \<le> capacity
           \<and> fst ` set mem' \<subseteq> set order'
           \<and> distinct (map fst mem')
           \<and> (\<forall>k v. map_of mem' k = Some v \<longrightarrow> map_of mem k = Some v)"
  using assms(2,3)
proof (induction order arbitrary: mem)
  case Nil
  then have "mem = []" by simp
  with assms(1) show ?case by simp
next
  case (Cons oldest_key rest)
  show ?case
  proof (cases "int (length mem) > capacity")
    case False
    show ?thesis
    proof (intro exI conjI allI impI)
      show "evict_oldest capacity mem (oldest_key # rest) = (None, mem, oldest_key # rest)"
        using False by simp
      show "int (length mem) \<le> capacity"
        using False by simp
      show "fst ` set mem \<subseteq> set (oldest_key # rest)" by fact
      show "distinct (map fst mem)" by fact
      show "map_of mem k = Some v" if "map_of mem k = Some v" for k v
        by fact
    qed
  next
    case True
    have keys: "fst ` set (AList.delete oldest_key mem) \<subseteq> set rest"
      using Cons.prems(1) by (auto simp: keys_delete)
    have dist: "distinct (map fst (AList.delete oldest_key mem))"
      using Cons.prems(2) by (rule AList.distinct_delete)
    from Cons.IH [OF keys dist] obtain mem' order' where
      r: "evict_oldest capacity (AList.delete oldest_key mem) rest = (None, mem', order')"
        "int (length mem') \<le> capacity" "fst ` set mem' \<subseteq> set order'"
        "distinct (map fst mem')"
        "\<forall>k v. map_of mem' k = Some v \<longrightarrow> map_of (AList.delete oldest_key mem) k = Some v"
      by (elim exE conjE)
    have sub: "map_of mem k = Some v" if "map_of mem' k = Some v" for k v
      using r(5) [rule_format, of k v] that by (simp add: AList.delete_conv' split: if_splits)
    show ?thesis
    proof (intro exI conjI allI impI)
      show "evict_oldest capacity mem (oldest_key # rest) = (None, mem', order')"
        using True r(1) by simp
      show "int (length mem') \<le> capacity" by fact
      show "fst ` set mem' \<subseteq> set order'" by fact
      show "distinct (map fst mem')" by fact
      show "map_of mem k = Some v" if "map_of mem' k = Some v" for k v
        using that by (rule sub)
    qed
  qed
qed

lemma set_touched_order:
  "set ((if key \<in> set order then remove1 key order else order) @ [key]) = insert key (set order)"
proof -
  have "set order - {key} \<subseteq> set (remove1 key order)"
    by (induction order) auto
  moreover have "set (remove1 key order) \<subseteq> set order"
    by (rule set_remove1_subset)
  ultimately show ?thesis by auto
qed

lemma maintain_lru_ok:
  assumes "0 \<le> max_memory_size c"
    and "distinct (map fst (memory_cache c))"
    and "fst ` set (memory_cache c) \<subseteq> insert key (set (access_order c))"
  shows "\<exists>c'. maintain_lru c key = (None, c')
           \<and> cache_inv c'
           \<and> max_memory_size c' = max_memory_size c
           \<and> translations_table c' = translations_table c
           \<and> (\<forall>k v. map_of (memory_cache c') k = Some v \<longrightarrow> map_of (memory_cache c) k = Some v)"
proof -
  let ?order1 = "(if key \<in> set (access_order c) then remove1 key (access_order c)
                  else access_order c) @ [key]"
  have "fst ` set (memory_cache c) \<subseteq> set ?order1"
    using assms(3) by (simp only: set_touched_order)
  from evict_oldest_ok [OF assms(1) this assms(2)] obtain mem' order' where
    "evict_oldest (max_memory_size c) (memory_cache c) ?order1 = (None, mem', order')"
    "int (length mem') \<le> max_memory_size c" "fst ` set mem' \<subseteq> set order'"
    "distinct (map fst mem')"
    "\<forall>k v. map_of mem' k = Some v \<longrightarrow> map_of (memory_cache c) k = Some v"
    by blast
  then show ?thesis
    using assms(1) by (simp add: maintain_lru_def cache_inv_def Let_def)
qed

lemma maintain_lru_within_capacity:
  assumes "int (length (memory_cache c)) \<le> max_memory_size c"
  shows "maintain_lru c key =
           (None, c\<lparr>memory_cache := memory_cache c,
                      access_order := (if key \<in> set (access_order c)
                                       then remove1 key (access_order c)
                                       else access_order c) @ [key]\<rparr>)"
  using assms by (simp add: maintain_lru_def Let_def evict_oldest_within_capacity)

lemma maintain_lru_touch:
  assumes "cache_inv c"
  shows "\<exists>c'. maintain_lru c key = (None, c') \<and> cache_inv c'
           \<and> memory_cache c' = memory_cache c
           \<and> translations_table c' = translations_table c"
proof -
  have "int (length (memory_cache c)) \<le> max_memory_size c"
    using assms by (simp add: cache_inv_def)
  from maintain_lru_within_capacity [OF this, of key]
  have m: "maintain_lru c key =
           (None, c\<lparr>memory_cache := memory_cache c,
                      access_order := (if key \<in> set (access_order c)
                                       then remove1 key (access_order c)
                                       else access_order c) @ [key]\<rparr>)" .
  have "fst ` set (memory_cache c) \<subseteq> insert key (set (access_order c))"
    using assms by (auto simp: cache_inv_def)
  then have "fst ` set (memory_cache c)
      \<subseteq> set ((if key \<in> set (access_order c) then remove1 key (access_order c)
                   else access_order c) @ [key])"
    by (simp only: set_touched_order)
  then show ?thesis
    unfolding m using assms by (simp add: cache_inv_def)
qed

lemma maintain_lru_table:
  "translations_table (snd (maintain_lru c key)) = translations_table c"
  by (simp add: maintain_lru_def Let_def split: prod.splits)

lemma keys_update: "fst ` set (AList.update k v al) = insert k (fst ` set al)"
  by (induction al) auto

lemma result_of_row_of_result: "result_of_row (row_of_result now r) = r"
  by (cases r) (simp add: result_of_row_def row_of_result_def)

subsection \<open>Store, then get\<close>

lemma store_ok:
  assumes "cache_inv c"
  shows "\<exists>c'. store md5 now c r = (None, c')
           \<and> cache_inv c'
           \<and> map_of (translations_table c')
                (generate_key md5 (original_text r) (source_lang r) (target_lang r) (service r))
              = Some (row_of_result now r)
           \<and> (\<forall>v. map_of (memory_cache c')
                    (generate_key md5 (original_text r) (source_lang r) (target_lang r) (service r))
                  = Some v \<longrightarrow> v = r)"
proof -
  let ?key = "generate_key md5 (original_text r) (source_lang r) (target_lang r) (service r)"
  let ?c1 = "c\<lparr>memory_cache := AList.update ?key r (memory_cache c)\<rparr>"
  have "0 \<le> max_memory_size ?c1"
    using assms by (simp add: cache_inv_def)
  moreover have "distinct (map fst (memory_cache ?c1))"
    using assms by (simp add: cache_inv_def AList.distinct_update)
  moreover have "fst ` set (memory_cache ?c1) \<subseteq> insert ?key (set (access_order ?c1))"
    using assms by (auto simp: cache_inv_def keys_update)
  ultimately obtain c2 where c2: "maintain_lru ?c1 ?key = (None, c2)" "cache_inv c2"
    "\<forall>k v. map_of (memory_cache c2) k = Some v \<longrightarrow> map_of (memory_cache ?c1) k = Some v"
    using maintain_lru_ok [of ?c1 ?key] by blast
  have "v = r" if "map_of (memory_cache c2) ?key = Some v" for v
    using c2(3) [rule_format, of ?key v] that by (simp add: AList.update_conv')
  with c2(1-2) show ?thesis
    by (simp add: store_def Let_def cache_inv_def AList.update_conv')
qed

lemma get_miss:
  assumes "\<not> cached md5 c txt src tgt svc"
  shows "get md5 c txt src tgt svc = (Inr None, c)"
  using assms by (simp add: get_def cached_def Let_def)

lemma get_hit:
  assumes "cache_inv c" and "cached md5 c txt src tgt svc"
  shows "\<exists>r c'. get md5 c txt src tgt svc = (Inr (Some r), c') \<and> cache_inv c'
           \<and> r = (case map_of (memory_cache c) (generate_key md5 txt src tgt svc) of
                       Some v \<Rightarrow> v
                     | None \<Rightarrow> result_of_row
                          (the (map_of (translations_table c) (generate_key md5 txt src tgt svc))))"
proof (cases "map_of (memory_cache c) (generate_key md5 txt src tgt svc)")
  case (Some v)
  from maintain_lru_touch [OF assms(1), of "generate_key md5 txt src tgt svc"] obtain c1 where
    "maintain_lru c (generate_key md5 txt src tgt svc) = (None, c1)" "cache_inv c1"
    "memory_cache c1 = memory_cache c"
    by blast
  with Some show ?thesis
    by (simp add: get_def Let_def)
next
  case None
  let ?key = "generate_key md5 txt src tgt svc"
  from None assms(2) obtain row where row: "map_of (translations_table c) ?key = Some row"
    by (auto simp: cached_def)
  let ?c1 = "c\<lparr>memory_cache := AList.update ?key (result_of_row row) (memory_cache c)\<rparr>"
  have "0 \<le> max_memory_size ?c1"
    using assms(1) by (simp add: cache_inv_def)
  moreover have "distinct (map fst (memory_cache ?c1))"
    using assms(1) by (simp add: cache_inv_def AList.distinct_update)
  moreover have "fst ` set (memory_cache ?c1) \<subseteq> insert ?key (set (access_order ?c1))"
    using assms(1) by (auto simp: cache_inv_def keys_update)
  ultimately obtain c2 where "maintain_lru ?c1 ?key = (None, c2)" "cache_inv c2"
    using maintain_lru_ok [of ?c1 ?key] by blast
  with None row show ?thesis
    by (simp add: get_def Let_def)
qed

lemma get_after_store:
  assumes "cache_inv c'"
    and "map_of (translations_table c') (generate_key md5 txt src tgt svc) = Some (row_of_result now r)"
    and "\<forall>v. map_of (memory_cache c') (generate_key md5 txt src tgt svc) = Some v \<longrightarrow> v = r"
  shows "fst (get md5 c' txt src tgt svc) = Inr (Some r)"
proof -
  have "cached md5 c' txt src tgt svc"
    using assms(2) by (simp add: cached_def)
  from get_hit [OF assms(1) this] obtain r' c2 where
    g: "get md5 c' txt src tgt svc = (Inr (Some r'), c2)"
    and r': "r' = (case map_of (memory_cache c') (generate_key md5 txt src tgt svc) of
                       Some v \<Rightarrow> v
                     | None \<Rightarrow> result_of_row
                          (the (map_of (translations_table c') (generate_key md5 txt src tgt svc))))"
    by blast
  have "r' = r"
    using r' assms(2,3) by (simp add: result_of_row_of_result split: option.splits)
  with g show ?thesis by simp
qed

text \<open>
  Claim C6 (cache round trip). On every well-formed cache, \<open>store r\<close> does not raise,
  and \<open>get\<close> with the original text, the languages and the service of \<open>r\<close> on the cache
  it leaves returns a result with the translated text and the confidence of \<open>r\<close>.
  The result comes from the memory tier, or from the table when the capacity is \<open>0\<close>.
\<close>

theorem C6_cache_round_trip:
  assumes "cache_inv c"
  shows "fst (store md5 now c r) = None
         \<and> (\<exists>r'. fst (get md5 (snd (store md5 now c r))
                       (original_text r) (source_lang r) (target_lang r) (service r))
                  = Inr (Some r')
                \<and> translated_text r' = translated_text r
                \<and> confidence r' = confidence r)"
proof -
  from store_ok [OF assms, of md5 now r] obtain c' where
    s: "store md5 now c r = (None, c')" and i: "cache_inv c'"
    and t: "map_of (translations_table c')
              (generate_key md5 (original_text r) (source_lang r) (target_lang r) (service r))
            = Some (row_of_result now r)"
    and m: "\<forall>v. map_of (memory_cache c')
                  (generate_key md5 (original_text r) (source_lang r) (target_lang r) (service r))
                = Some v \<longrightarrow> v = r"
    by blast
  have "fst (get md5 c' (original_text r) (source_lang r) (target_lang r) (service r)) = Inr (Some r)"
    using i t m by (rule get_after_store)
  with s show ?thesis by simp
qed


text \<open>
  The theorem at work: the result of the repository's own cache test, stored in an empty
  cache of capacity 0 (so that the memory tier keeps nothing), is read back from the
  table.
\<close>

theorem C6_cache_round_trip_witness:
  "cache_inv (TranslationCache_init [] 0)
   \<and> fst (store plain_digest 7 (TranslationCache_init [] 0) hello_result) = None
   \<and> (\<exists>r'. fst (get plain_digest (snd (store plain_digest 7 (TranslationCache_init [] 0) hello_result))
                  ''Hello'' ''en'' ''zh-CN'' ''test'') = Inr (Some r')
          \<and> translated_text r' = [CHR 0xE4, CHR 0xBD, CHR 0xA0, CHR 0xE5, CHR 0xA5, CHR 0xBD]
          \<and> confidence r' = 0.95)"
proof -
  have inv: "cache_inv (TranslationCache_init [] 0)"
    by (simp add: cache_inv_def TranslationCache_init_def)
  show ?thesis
    using inv C6_cache_round_trip [OF inv, of plain_digest 7 hello_result]
    by (simp add: hello_result_def)
qed

subsection \<open>The table of the refactored cache only grows\<close>

lemma length_update_ge: "length al \<le> length (AList.update k v al)"
  by (induction al) auto

lemma store_table:
  "translations_table (snd (store md5 now c r)) = translations_table c
   \<or> translations_table (snd (store md5 now c r))
       = AList.update (generate_key md5 (original_text r) (source_lang r) (target_lang r) (service r))
           (row_of_result now r) (translations_table c)"
proof -
  let ?key = "generate_key md5 (original_text r) (source_lang r) (target_lang r) (service r)"
  let ?c1 = "c\<lparr>memory_cache := AList.update ?key r (memory_cache c)\<rparr>"
  obtain e c2 where m: "maintain_lru ?c1 ?key = (e, c2)"
    by force
  have "translations_table c2 = translations_table c"
    using maintain_lru_table [of ?c1 ?key] m by simp
  with m show ?thesis
    by (cases e) (simp_all add: store_def Let_def)
qed

text \<open>
  The class \<open>TranslationCache\<close> of \<^verbatim>\<open>app/core/translation.py\<close> has no maximum for its
  table: \<open>store\<close> inserts or replaces one row and deletes none.
\<close>

lemma store_keeps_every_row:
  "length (translations_table c) \<le> length (translations_table (snd (store md5 now c r)))
   \<and> fst ` set (translations_table c) \<subseteq> fst ` set (translations_table (snd (store md5 now c r)))"
proof -
  let ?key = "generate_key md5 (original_text r) (source_lang r) (target_lang r) (service r)"
  have "length (translations_table c) \<le> length (AList.update ?key (row_of_result now r) (translations_table c))"
    by (rule length_update_ge)
  moreover have "fst ` set (translations_table c)
      \<subseteq> fst ` set (AList.update ?key (row_of_result now r) (translations_table c))"
    by (simp add: keys_update subset_insertI)
  ultimately show ?thesis
    using store_table [of md5 now c r] by (elim disjE) simp_all
qed

section \<open>Properties of the pruning cache\<close>

lemma insert_or_replace_distinct:
  assumes "distinct (map fst tbl)"
  shows "distinct (map fst (insert_or_replace key row tbl))"
proof -
  have "distinct (map fst (filter (\<lambda>(k, r). k \<noteq> key) tbl))"
    using assms by (rule distinct_map_filter)
  moreover have "key \<notin> fst ` set (filter (\<lambda>(k, r). k \<noteq> key) tbl)"
    by auto
  ultimately show ?thesis
    by (simp add: insert_or_replace_def)
qed

text \<open>In a list sorted by a key, what \<open>take\<close> takes is not above what it leaves.\<close>

lemma sorted_take_below_drop:
  assumes "sorted (map f xs)" and "x \<in> set (take n xs)" and "y \<in> set (drop n xs)"
  shows "f x \<le> f y"
proof -
  have "sorted (map f (take n xs) @ map f (drop n xs))"
    using assms(1) by (simp flip: map_append)
  then have "\<forall>a \<in> set (map f (take n xs)). \<forall>b \<in> set (map f (drop n xs)). a \<le> b"
    by (simp add: sorted_append)
  with assms(2,3) show ?thesis
    by simp
qed

text \<open>
  The \<open>DELETE\<close> of \<open>_prune_if_needed\<close> on a table with distinct keys: it removes
  exactly the \<open>n\<close> rows that come first in the order of the timestamps.
\<close>

lemma delete_oldest:
  assumes dist: "distinct (map fst tbl)" and n: "n \<le> length tbl"
  defines "kept \<equiv> filter (\<lambda>(k, r). k \<notin> set (oldest_hashes n tbl)) tbl"
  shows "length kept = length tbl - n"
    and "set kept \<subseteq> set tbl"
    and "\<forall>x \<in> set tbl - set kept. \<forall>y \<in> set kept. row_timestamp (snd x) \<le> row_timestamp (snd y)"
proof -
  let ?ts = "\<lambda>(k, r). row_timestamp r"
  let ?S = "sort_key ?ts tbl"
  let ?D = "take n ?S"
  have dt: "distinct tbl"
    using dist by (auto simp: distinct_map)
  have setS: "set ?S = set tbl" and dS: "distinct ?S" and lenS: "length ?S = length tbl"
    using dt by simp_all
  have sortedS: "sorted (map ?ts ?S)"
    by (rule sorted_sort_key)
  have D_sub: "set ?D \<subseteq> set tbl"
    using set_take_subset [of n ?S] setS by simp
  have doomed: "fst x \<in> set (oldest_hashes n tbl) \<longleftrightarrow> x \<in> set ?D" if "x \<in> set tbl" for x
  proof
    assume "fst x \<in> set (oldest_hashes n tbl)"
    then obtain d where d: "d \<in> set ?D" "fst d = fst x"
      by (auto simp: oldest_hashes_def)
    with D_sub have "d \<in> set tbl"
      by auto
    with dist that d(2) have "d = x"
      by (meson eq_key_imp_eq_value prod_eqI distinct_map inj_onD)
    with d(1) show "x \<in> set ?D"
      by simp
  next
    assume "x \<in> set ?D"
    then show "fst x \<in> set (oldest_hashes n tbl)"
      by (auto simp: oldest_hashes_def)
  qed
  have kept_eq: "kept = filter (\<lambda>x. x \<notin> set ?D) tbl"
    unfolding kept_def
  proof (rule filter_cong [OF refl])
    fix x assume "x \<in> set tbl"
    from doomed [OF this]
    show "(case x of (k, r) \<Rightarrow> k \<notin> set (oldest_hashes n tbl)) = (x \<notin> set ?D)"
      by (cases x) simp
  qed
  show sub: "set kept \<subseteq> set tbl"
    by (simp add: kept_def)
  have "set kept = set tbl - set ?D"
    by (auto simp: kept_eq)
  moreover have "distinct kept"
    using dt by (simp add: kept_def)
  ultimately have "length kept = card (set tbl - set ?D)"
    by (metis distinct_card)
  also have "\<dots> = card (set tbl) - card (set ?D)"
    using D_sub by (simp add: card_Diff_subset)
  also have "card (set tbl) = length tbl"
    using dt by (rule distinct_card)
  also have "card (set ?D) = length ?D"
    using dS by (intro distinct_card distinct_take)
  also have "length ?D = n"
    using n lenS by simp
  finally show "length kept = length tbl - n" .
  show "\<forall>x \<in> set tbl - set kept. \<forall>y \<in> set kept. row_timestamp (snd x) \<le> row_timestamp (snd y)"
  proof (intro ballI)
    fix x y
    assume x: "x \<in> set tbl - set kept" and y: "y \<in> set kept"
    from x have xD: "x \<in> set ?D"
      by (auto simp: kept_eq)
    from y have "y \<in> set tbl" "y \<notin> set ?D"
      by (auto simp: kept_eq)
    moreover have "set ?S = set ?D \<union> set (drop n ?S)"
      by (metis append_take_drop_id set_append)
    ultimately have "y \<in> set (drop n ?S)"
      using setS by auto
    with sortedS xD have "?ts x \<le> ?ts y"
      by (rule sorted_take_below_drop)
    then show "row_timestamp (snd x) \<le> row_timestamp (snd y)"
      by (simp add: case_prod_beta)
  qed
qed

text \<open>
  Claim C7 (pruning of the persistent tier). Let the table have distinct primary keys
  and let the maximum be non-negative. When the row that \<open>store\<close> inserts or replaces
  makes the table longer than \<open>max_size\<close>, the one \<open>DELETE\<close> of \<open>_prune_if_needed\<close> leaves
  exactly \<open>\<lfloor>4 \<times> max_size / 5\<rfloor>\<close> rows, that is 80% of the maximum rounded down; every row
  left is a row of the table as it was after the insertion, unchanged; and every row
  removed has a timestamp (the time of its last \<open>store\<close> or \<open>get\<close>) not later than that
  of any row left. When the table is not longer than \<open>max_size\<close>, nothing is removed.
\<close>

theorem C7_prune_oldest:
  assumes "distinct (map fst (table_rows c))" and "0 \<le> max_size c"
  shows "(int (length (insert_or_replace
                 (generate_key md5 (original_text r) (source_lang r) (target_lang r) (service r))
                 (row_of_result now r) (table_rows c))) > max_size c
          \<longrightarrow> int (length (table_rows (store_original md5 now c r))) = (max_size c * 4) div 5
              \<and> set (table_rows (store_original md5 now c r))
                  \<subseteq> set (insert_or_replace
                        (generate_key md5 (original_text r) (source_lang r) (target_lang r) (service r))
                        (row_of_result now r) (table_rows c))
              \<and> (\<forall>x \<in> set (insert_or_replace
                        (generate_key md5 (original_text r) (source_lang r) (target_lang r) (service r))
                        (row_of_result now r) (table_rows c))
                      - set (table_rows (store_original md5 now c r)).
                   \<forall>y \<in> set (table_rows (store_original md5 now c r)).
                     row_timestamp (snd x) \<le> row_timestamp (snd y)))
         \<and> (int (length (insert_or_replace
                 (generate_key md5 (original_text r) (source_lang r) (target_lang r) (service r))
                 (row_of_result now r) (table_rows c))) \<le> max_size c
          \<longrightarrow> table_rows (store_original md5 now c r)
                = insert_or_replace
                    (generate_key md5 (original_text r) (source_lang r) (target_lang r) (service r))
                    (row_of_result now r) (table_rows c))"
proof -
  let ?key = "generate_key md5 (original_text r) (source_lang r) (target_lang r) (service r)"
  let ?T = "insert_or_replace ?key (row_of_result now r) (table_rows c)"
  let ?e = "(max_size c * 4) div 5"
  let ?n = "nat (int (length ?T) - ?e)"
  have dist: "distinct (map fst ?T)"
    using assms(1) by (rule insert_or_replace_distinct)
  have e: "0 \<le> ?e" "?e \<le> max_size c"
    using assms(2) by simp_all
  have eighty: "eighty_percent (max_size c) = ?e"
    using assms(2) by (simp add: eighty_percent_def)
  show ?thesis
  proof (intro conjI impI)
    assume over: "int (length ?T) > max_size c"
    have pruned: "table_rows (store_original md5 now c r)
        = filter (\<lambda>(k, r). k \<notin> set (oldest_hashes ?n ?T)) ?T"
      using over by (simp add: store_original_def prune_if_needed_def Let_def eighty)
    have n: "?n \<le> length ?T"
      using e by simp
    note del = delete_oldest [OF dist n]
    have "length (table_rows (store_original md5 now c r)) = length ?T - ?n"
      unfolding pruned by (rule del(1))
    with over e show "int (length (table_rows (store_original md5 now c r))) = ?e"
      by simp
    show "set (table_rows (store_original md5 now c r)) \<subseteq> set ?T"
      unfolding pruned by (rule del(2))
    show "\<forall>x \<in> set ?T - set (table_rows (store_original md5 now c r)).
            \<forall>y \<in> set (table_rows (store_original md5 now c r)).
              row_timestamp (snd x) \<le> row_timestamp (snd y)"
      unfolding pruned by (rule del(3))
  next
    assume "int (length ?T) \<le> max_size c"
    then show "table_rows (store_original md5 now c r) = ?T"
      by (simp add: store_original_def prune_if_needed_def Let_def)
  qed
qed

text \<open>
  The theorem at work: the cache of five rows takes a sixth at time 8; the rows last
  used at the times 1 and 3 go, four rows stay.
\<close>

theorem C7_prune_oldest_witness:
  "table_rows (store_original plain_digest 8 five_rows f_result)
     = [(''b:en:zh-CN:DeepL'', numbered_row ''b'' 6),
        (''d:en:zh-CN:DeepL'', numbered_row ''d'' 7),
        (''e:en:zh-CN:DeepL'', numbered_row ''e'' 5),
        (''f:en:zh-CN:DeepL'', numbered_row ''f'' 8)]
   \<and> int (length (table_rows (store_original plain_digest 8 five_rows f_result))) = (5 * 4) div 5"
proof -
  have key: "generate_key plain_digest (original_text f_result) (source_lang f_result)
               (target_lang f_result) (service f_result) = ''f:en:zh-CN:DeepL''"
    by (simp add: generate_key_def plain_digest_def f_result_def)
  have row: "row_of_result 8 f_result = numbered_row ''f'' 8"
    by (simp add: row_of_result_def f_result_def numbered_row_def)
  have tbl: "table_rows five_rows
      = [(''a:en:zh-CN:DeepL'', numbered_row ''a'' 1), (''b:en:zh-CN:DeepL'', numbered_row ''b'' 6),
         (''c:en:zh-CN:DeepL'', numbered_row ''c'' 3), (''d:en:zh-CN:DeepL'', numbered_row ''d'' 7),
         (''e:en:zh-CN:DeepL'', numbered_row ''e'' 5)]"
    and m: "max_size five_rows = 5"
    by (simp_all add: five_rows_def)
  have ins: "insert_or_replace ''f:en:zh-CN:DeepL'' (numbered_row ''f'' 8) (table_rows five_rows)
      = [(''a:en:zh-CN:DeepL'', numbered_row ''a'' 1), (''b:en:zh-CN:DeepL'', numbered_row ''b'' 6),
         (''c:en:zh-CN:DeepL'', numbered_row ''c'' 3), (''d:en:zh-CN:DeepL'', numbered_row ''d'' 7),
         (''e:en:zh-CN:DeepL'', numbered_row ''e'' 5), (''f:en:zh-CN:DeepL'', numbered_row ''f'' 8)]"
    by (simp add: insert_or_replace_def tbl)
  have ts: "row_timestamp (numbered_row t time) = time" for t time
    by (simp add: numbered_row_def)
  have old: "oldest_hashes 2
       [(''a:en:zh-CN:DeepL'', numbered_row ''a'' 1), (''b:en:zh-CN:DeepL'', numbered_row ''b'' 6),
        (''c:en:zh-CN:DeepL'', numbered_row ''c'' 3), (''d:en:zh-CN:DeepL'', numbered_row ''d'' 7),
        (''e:en:zh-CN:DeepL'', numbered_row ''e'' 5), (''f:en:zh-CN:DeepL'', numbered_row ''f'' 8)]
      = [''a:en:zh-CN:DeepL'', ''c:en:zh-CN:DeepL'']"
    by (simp add: oldest_hashes_def ts eval_nat_numeral)
  have res: "table_rows (store_original plain_digest 8 five_rows f_result)
     = [(''b:en:zh-CN:DeepL'', numbered_row ''b'' 6),
        (''d:en:zh-CN:DeepL'', numbered_row ''d'' 7),
        (''e:en:zh-CN:DeepL'', numbered_row ''e'' 5),
        (''f:en:zh-CN:DeepL'', numbered_row ''f'' 8)]"
    by (simp add: store_original_def prune_if_needed_def Let_def key row ins m
        eighty_percent_def old)
  have "distinct (map fst (table_rows five_rows))" "0 \<le> max_size five_rows"
    by (simp_all add: five_rows_def)
  from C7_prune_oldest [OF this, of plain_digest f_result 8] show ?thesis
    by (simp add: res)
qed

section \<open>Properties of \<open>translate\<close>\<close>

subsection \<open>The cache is asked first\<close>

lemma cache_lookup_all_miss:
  assumes "\<forall>n \<in> set prio. svcs n \<noteq> None \<longrightarrow> \<not> cached md5 c txt src tgt n"
  shows "cache_lookup md5 svcs prio c txt src tgt calls_made
           = (Inr None, c, calls_made @ map CacheGet (filter (\<lambda>n. svcs n \<noteq> None) prio))"
  using assms
proof (induction prio arbitrary: calls_made)
  case Nil
  show ?case by simp
next
  case (Cons n ns)
  show ?case
  proof (cases "svcs n")
    case None
    with Cons show ?thesis by simp
  next
    case (Some p)
    with Cons.prems have "\<not> cached md5 c txt src tgt n"
      by simp
    then have "get md5 c txt src tgt n = (Inr None, c)"
      by (rule get_miss)
    with Some Cons show ?thesis by simp
  qed
qed

lemma cache_lookup_first_hit:
  assumes "cache_inv c"
    and "filter (\<lambda>n. svcs n \<noteq> None) prio = misses @ hit # rest"
    and "\<forall>n \<in> set misses. \<not> cached md5 c txt src tgt n"
    and "cached md5 c txt src tgt hit"
  shows "\<exists>r c'. cache_lookup md5 svcs prio c txt src tgt calls_made
                  = (Inr (Some r), c', calls_made @ map CacheGet (misses @ [hit]))
               \<and> get md5 c txt src tgt hit = (Inr (Some r), c')"
  using assms(2,3)
proof (induction prio arbitrary: misses calls_made)
  case Nil
  then show ?case by simp
next
  case (Cons n ns)
  show ?case
  proof (cases "svcs n")
    case None
    with Cons.prems(1) have "filter (\<lambda>n. svcs n \<noteq> None) ns = misses @ hit # rest"
      by simp
    from Cons.IH [OF this Cons.prems(2)] None show ?thesis
      by simp
  next
    case (Some p)
    with Cons.prems(1) have f: "n # filter (\<lambda>n. svcs n \<noteq> None) ns = misses @ hit # rest"
      by simp
    show ?thesis
    proof (cases misses)
      case Nil
      with f have n: "n = hit" by simp
      from get_hit [OF assms(1,4)] obtain r c' where
        "get md5 c txt src tgt hit = (Inr (Some r), c')"
        by blast
      with Some n Nil show ?thesis by simp
    next
      case (Cons m ms)
      with f have n: "n = m" and rest: "filter (\<lambda>n. svcs n \<noteq> None) ns = ms @ hit # rest"
        by simp_all
      from Cons.prems(2) Cons have "\<not> cached md5 c txt src tgt m" and ms: "\<forall>n \<in> set ms. \<not> cached md5 c txt src tgt n"
        by simp_all
      then have miss: "get md5 c txt src tgt m = (Inr None, c)"
        using get_miss by blast
      from Cons.IH [OF rest ms, of "calls_made @ [CacheGet m]"] obtain r c' where
        "cache_lookup md5 svcs ns c txt src tgt (calls_made @ [CacheGet m])
           = (Inr (Some r), c', (calls_made @ [CacheGet m]) @ map CacheGet (ms @ [hit]))"
        "get md5 c txt src tgt hit = (Inr (Some r), c')"
        by blast
      with Some n miss Cons show ?thesis by simp
    qed
  qed
qed

lemma cache_lookup_returns:
  assumes "cache_inv c"
  shows "\<exists>res c' made. cache_lookup md5 svcs prio c txt src tgt calls_made = (Inr res, c', made)
           \<and> cache_inv c'"
  using assms
proof (induction prio arbitrary: c calls_made)
  case Nil
  then show ?case by simp
next
  case (Cons n ns)
  show ?case
  proof (cases "svcs n")
    case None
    with Cons show ?thesis by simp
  next
    case (Some p)
    show ?thesis
    proof (cases "cached md5 c txt src tgt n")
      case True
      from get_hit [OF Cons.prems True] obtain r c' where
        "get md5 c txt src tgt n = (Inr (Some r), c')" "cache_inv c'"
        by blast
      with Some show ?thesis by simp
    next
      case False
      then have "get md5 c txt src tgt n = (Inr None, c)"
        by (rule get_miss)
      with Some Cons show ?thesis by simp
    qed
  qed
qed

text \<open>Whatever the second loop does, it appends to the log and asks the cache nothing.\<close>

lemma try_services_log:
  "\<exists>live. snd (snd (try_services md5 re_sub now svcs terms use_cache prio c txt src tgt calls_made))
            = calls_made @ live
          \<and> (\<forall>n. CacheGet n \<notin> set live)"
proof (induction prio arbitrary: c calls_made)
  case Nil
  show ?case by simp
next
  case (Cons n ns)
  show ?case
  proof (cases "svcs n")
    case None
    with Cons show ?thesis by simp
  next
    case (Some p)
    have ext: "\<exists>live. snd (snd (try_services md5 re_sub now svcs terms use_cache ns c' txt src tgt
                    (calls_made @ more))) = calls_made @ live \<and> (\<forall>n. CacheGet n \<notin> set live)"
      if "\<forall>n. CacheGet n \<notin> set more" for c' more
    proof -
      from Cons [of c' "calls_made @ more"] obtain live where
        "snd (snd (try_services md5 re_sub now svcs terms use_cache ns c' txt src tgt
                    (calls_made @ more))) = (calls_made @ more) @ live"
        "\<forall>n. CacheGet n \<notin> set live"
        by blast
      with that show ?thesis
        by (intro exI [of _ "more @ live"]) auto
    qed
    show ?thesis
    proof (cases "is_available p")
      case False
      with Some ext [of "[Probe n]" c] show ?thesis by simp
    next
      case True
      show ?thesis
      proof (cases "translate_single p \<lparr>req_text = txt, req_source_lang = src, req_target_lang = tgt\<rparr>")
        case (Inl e)
        with Some True ext [of "[Probe n, Single n]" c] show ?thesis by simp
      next
        case (Inr r)
        show ?thesis
        proof (cases use_cache)
          case False
          with Some True Inr show ?thesis
            by (simp add: Let_def)
        next
          case uc: True
          obtain e c1 where st: "store md5 now c
              (r\<lparr>translated_text := apply_terminology re_sub terms (translated_text r) src tgt\<rparr>)
              = (e, c1)"
            by force
          show ?thesis
          proof (cases e)
            case None
            with Some True Inr uc st show ?thesis
              by (simp add: Let_def)
          next
            case (Some e')
            with \<open>svcs n = Some p\<close> True Inr uc st
              ext [of "[Probe n, Single n, CacheStore n]" c1] show ?thesis
              by (simp add: Let_def)
          qed
        qed
      qed
    qed
  qed
qed

text \<open>
  Claim C5 (the cache is asked for every provider before any live call, and the first
  hit wins). With caching on, a non-blank text and a well-formed cache: when the
  configured services in priority order are \<open>misses\<close>, then \<open>hit\<close>, then \<open>rest\<close>, nothing
  is cached for the \<open>misses\<close> and something is cached for \<open>hit\<close>, then \<open>translate\<close>
  returns what \<open>cache.get\<close> returns for \<open>hit\<close>, and the only calls made are the cache
  queries for the \<open>misses\<close> and for \<open>hit\<close>: no provider is probed or called, however
  available the providers in \<open>misses\<close> are. When nothing is cached for any configured
  service, the cache is asked for every one of them, in priority order, before the
  first probe or call, and never again.
\<close>

theorem C5_first_cache_hit_wins:
  assumes "cache_inv (cache mgr)" and "\<not> blank txt"
  shows "(filter (\<lambda>n. services mgr n \<noteq> None) (service_priority mgr) = misses @ hit # rest
            \<and> (\<forall>n \<in> set misses. \<not> cached md5 (cache mgr) txt src tgt n)
            \<and> cached md5 (cache mgr) txt src tgt hit
          \<longrightarrow> (\<exists>r c'. translate md5 re_sub now mgr txt src tgt True
                        = (Inr r, c', map CacheGet (misses @ [hit]))
                      \<and> fst (get md5 (cache mgr) txt src tgt hit) = Inr (Some r)))
         \<and> ((\<forall>n \<in> set (service_priority mgr).
                services mgr n \<noteq> None \<longrightarrow> \<not> cached md5 (cache mgr) txt src tgt n)
          \<longrightarrow> (\<exists>r c' live. translate md5 re_sub now mgr txt src tgt True
                        = (Inr r, c',
                           map CacheGet (filter (\<lambda>n. services mgr n \<noteq> None) (service_priority mgr))
                           @ live)
                      \<and> (\<forall>n. CacheGet n \<notin> set live)))"
proof (intro conjI impI)
  assume h: "filter (\<lambda>n. services mgr n \<noteq> None) (service_priority mgr) = misses @ hit # rest
            \<and> (\<forall>n \<in> set misses. \<not> cached md5 (cache mgr) txt src tgt n)
            \<and> cached md5 (cache mgr) txt src tgt hit"
  have "\<exists>r c'. cache_lookup md5 (services mgr) (service_priority mgr) (cache mgr) txt src tgt []
                  = (Inr (Some r), c', [] @ map CacheGet (misses @ [hit]))
               \<and> get md5 (cache mgr) txt src tgt hit = (Inr (Some r), c')"
    using assms(1) h by (intro cache_lookup_first_hit) simp_all
  then obtain r c' where
    "cache_lookup md5 (services mgr) (service_priority mgr) (cache mgr) txt src tgt []
       = (Inr (Some r), c', map CacheGet (misses @ [hit]))"
    "get md5 (cache mgr) txt src tgt hit = (Inr (Some r), c')"
    by auto
  with assms(2) show "\<exists>r c'. translate md5 re_sub now mgr txt src tgt True
                        = (Inr r, c', map CacheGet (misses @ [hit]))
                      \<and> fst (get md5 (cache mgr) txt src tgt hit) = Inr (Some r)"
    by (simp add: translate_def)
next
  assume h: "\<forall>n \<in> set (service_priority mgr).
                services mgr n \<noteq> None \<longrightarrow> \<not> cached md5 (cache mgr) txt src tgt n"
  let ?asked = "map CacheGet (filter (\<lambda>n. services mgr n \<noteq> None) (service_priority mgr))"
  have look: "cache_lookup md5 (services mgr) (service_priority mgr) (cache mgr) txt src tgt []
                = (Inr None, cache mgr, ?asked)"
    using cache_lookup_all_miss [OF h, of "[]"] by simp
  obtain r c2 made where t: "try_services md5 re_sub now (services mgr) (terminology mgr) True
      (service_priority mgr) (cache mgr) txt src tgt ?asked = (r, c2, made)"
    using prod_cases3 by blast
  from try_services_log [of md5 re_sub now "services mgr" "terminology mgr" True
      "service_priority mgr" "cache mgr" "txt" src tgt ?asked] t
  obtain live where "made = ?asked @ live" "\<forall>n. CacheGet n \<notin> set live"
    by auto
  with assms(2) look t show "\<exists>r c' live. translate md5 re_sub now mgr txt src tgt True
                        = (Inr r, c', ?asked @ live) \<and> (\<forall>n. CacheGet n \<notin> set live)"
    by (simp add: translate_def)
qed

lemma fallback_first_services:
  "services fallback_first_manager ''Fallback'' = Some FallbackTranslator"
  "services fallback_first_manager ''DeepL'' = Some deepl_up"
  "services fallback_first_manager ''OpenAI'' = None"
  "services fallback_first_manager ''Google'' = None"
  by (simp_all add: fallback_first_manager_def TranslationManager_init_def init_services_def)

lemma fallback_first_priority:
  "service_priority fallback_first_manager = [''Fallback'', ''DeepL'', ''OpenAI'', ''Google'']"
  by (simp add: fallback_first_manager_def TranslationManager_init_def)

lemma fallback_first_cache:
  "cache fallback_first_manager
     = \<lparr>max_memory_size = 1000, memory_cache = [], access_order = [],
        translations_table = [(''Hello:en:zh-CN:DeepL'', hello_deepl_row)]\<rparr>"
  by (simp add: fallback_first_manager_def TranslationManager_init_def TranslationCache_init_def)

lemma not_blank_Hello: "\<not> blank ''Hello''"
  by (simp add: is_space_def wide_space_def)

text \<open>
  The theorem at work: the primary service is the fallback translator, which is always
  available, and DeepL has a cached row for the request. \<open>translate\<close> asks the cache for
  \<open>Fallback\<close>, then for \<open>DeepL\<close>, and returns the DeepL row without probing or calling
  anything.
\<close>

theorem C5_first_cache_hit_wins_witness:
  "is_available FallbackTranslator
   \<and> (\<exists>r c'. translate plain_digest re_sub_ascii 9 fallback_first_manager ''Hello'' ''en'' ''zh-CN'' True
                = (Inr r, c', [CacheGet ''Fallback'', CacheGet ''DeepL''])
              \<and> service r = ''DeepL'')"
proof -
  have inv: "cache_inv (cache fallback_first_manager)"
    by (simp add: fallback_first_cache cache_inv_def)
  have conf: "filter (\<lambda>n. services fallback_first_manager n \<noteq> None)
                (service_priority fallback_first_manager) = [''Fallback''] @ ''DeepL'' # []"
    by (simp add: fallback_first_priority fallback_first_services)
  have miss: "\<forall>n \<in> set [''Fallback'']. \<not> cached plain_digest (cache fallback_first_manager)
                ''Hello'' ''en'' ''zh-CN'' n"
    by (simp add: cached_def fallback_first_cache generate_key_def plain_digest_def)
  have hit: "cached plain_digest (cache fallback_first_manager) ''Hello'' ''en'' ''zh-CN'' ''DeepL''"
    by (simp add: cached_def fallback_first_cache generate_key_def plain_digest_def)
  have got: "fst (get plain_digest (cache fallback_first_manager) ''Hello'' ''en'' ''zh-CN'' ''DeepL'')
               = Inr (Some (result_of_row hello_deepl_row))"
    using get_hit [OF inv hit]
    by (auto simp: fallback_first_cache generate_key_def plain_digest_def)
  have svc: "service (result_of_row hello_deepl_row) = ''DeepL''"
    by (simp add: result_of_row_def hello_deepl_row_def)
  have "\<exists>r c'. translate plain_digest re_sub_ascii 9 fallback_first_manager ''Hello'' ''en'' ''zh-CN'' True
                = (Inr r, c', map CacheGet ([''Fallback''] @ [''DeepL'']))
              \<and> fst (get plain_digest (cache fallback_first_manager) ''Hello'' ''en'' ''zh-CN'' ''DeepL'')
                  = Inr (Some r)"
    using C5_first_cache_hit_wins [OF inv not_blank_Hello, where misses = "[''Fallback'']"
        and hit = "''DeepL''" and rest = "[]" and ?md5.0 = plain_digest and src = "''en''"
        and tgt = "''zh-CN''" and re_sub = re_sub_ascii and now = 9] conf miss hit
    by blast
  then show ?thesis
    using got svc by (auto simp: FallbackTranslator_def)
qed

subsection \<open>Failover ends at the fallback translator\<close>

lemma apply_terminology_no_table:
  "map_of terms (src @ ''-'' @ tgt) = None \<Longrightarrow> apply_terminology re_sub terms txt src tgt = txt"
  by (simp add: apply_terminology_def)

lemma try_services_fallback:
  assumes fb: "svcs ''Fallback'' = Some FallbackTranslator"
    and inv: "cache_inv c"
    and listed: "''Fallback'' \<in> set prio"
    and down: "\<forall>n \<in> set prio. \<forall>p. svcs n = Some p \<and> n \<noteq> ''Fallback''
                 \<longrightarrow> \<not> is_available p
                     \<or> (\<exists>e. translate_single p
                               \<lparr>req_text = txt, req_source_lang = src, req_target_lang = tgt\<rparr> = Inl e)"
  shows "fst (try_services md5 re_sub now svcs terms use_cache prio c txt src tgt calls_made)
           = \<lparr>original_text = txt,
              translated_text = apply_terminology re_sub terms txt src tgt,
              source_lang = src, target_lang = tgt, confidence = 0, service = ''fallback'',
              metadata = [(''warning'', ''No translation service available'')]\<rparr>"
  using listed down
proof (induction prio arbitrary: calls_made)
  case Nil
  then show ?case by simp
next
  case (Cons n ns)
  let ?r1 = "\<lparr>original_text = txt,
              translated_text = apply_terminology re_sub terms txt src tgt,
              source_lang = src, target_lang = tgt, confidence = 0, service = ''fallback'',
              metadata = [(''warning'', ''No translation service available'')]\<rparr>"
  show ?case
  proof (cases "n = ''Fallback''")
    case True
    from store_ok [OF inv, of md5 now ?r1] obtain c' where st: "store md5 now c ?r1 = (None, c')"
      by blast
    show ?thesis
    proof (cases use_cache)
      case uc: True
      with True fb st show ?thesis
        by (simp add: FallbackTranslator_def fallback_translate_single_def Let_def)
    next
      case False
      with True fb show ?thesis
        by (simp add: FallbackTranslator_def fallback_translate_single_def Let_def)
    qed
  next
    case False
    with Cons.prems(1) have later: "''Fallback'' \<in> set ns"
      by simp
    from Cons.prems(2) have down': "\<forall>n \<in> set ns. \<forall>p. svcs n = Some p \<and> n \<noteq> ''Fallback''
                 \<longrightarrow> \<not> is_available p
                     \<or> (\<exists>e. translate_single p
                               \<lparr>req_text = txt, req_source_lang = src, req_target_lang = tgt\<rparr> = Inl e)"
      by simp
    note IH = Cons.IH [OF later down']
    show ?thesis
    proof (cases "svcs n")
      case None
      with IH show ?thesis by simp
    next
      case (Some p)
      with Cons.prems(2) False have
        "\<not> is_available p
         \<or> (\<exists>e. translate_single p
                  \<lparr>req_text = txt, req_source_lang = src, req_target_lang = tgt\<rparr> = Inl e)"
        by simp
      then show ?thesis
      proof
        assume "\<not> is_available p"
        with Some IH show ?thesis by simp
      next
        assume "\<exists>e. translate_single p
                  \<lparr>req_text = txt, req_source_lang = src, req_target_lang = tgt\<rparr> = Inl e"
        then obtain e where "translate_single p
                  \<lparr>req_text = txt, req_source_lang = src, req_target_lang = tgt\<rparr> = Inl e"
          by blast
        with Some IH show ?thesis by simp
      qed
    qed
  qed
qed

lemma translate_returns:
  assumes "cache_inv (cache mgr)"
  shows "\<exists>r. fst (translate md5 re_sub now mgr txt src tgt use_cache) = Inr r"
proof (cases "blank txt")
  case True
  then show ?thesis by (simp add: translate_def)
next
  case nb: False
  show ?thesis
  proof (cases use_cache)
    case False
    with nb show ?thesis
      by (simp add: translate_def split: prod.splits)
  next
    case True
    from cache_lookup_returns [OF assms, of md5 "services mgr" "service_priority mgr" "txt" src tgt "[]"]
    obtain res c' made where
      "cache_lookup md5 (services mgr) (service_priority mgr) (cache mgr) txt src tgt []
         = (Inr res, c', made)"
      by blast
    with nb True show ?thesis
      by (cases res) (simp_all add: translate_def split: prod.splits)
  qed
qed

lemma translate_falls_back:
  assumes inv: "cache_inv (cache mgr)" and nb: "\<not> blank txt"
    and fb: "services mgr ''Fallback'' = Some FallbackTranslator"
    and listed: "''Fallback'' \<in> set (service_priority mgr)"
    and down: "\<forall>n \<in> set (service_priority mgr). \<forall>p. services mgr n = Some p \<and> n \<noteq> ''Fallback''
                 \<longrightarrow> \<not> is_available p
                     \<or> (\<exists>e. translate_single p
                               \<lparr>req_text = txt, req_source_lang = src, req_target_lang = tgt\<rparr> = Inl e)"
    and cold: "use_cache \<longrightarrow> (\<forall>n \<in> set (service_priority mgr).
                 services mgr n \<noteq> None \<longrightarrow> \<not> cached md5 (cache mgr) txt src tgt n)"
  shows "fst (translate md5 re_sub now mgr txt src tgt use_cache)
           = Inr \<lparr>original_text = txt,
                  translated_text = apply_terminology re_sub (terminology mgr) txt src tgt,
                  source_lang = src, target_lang = tgt, confidence = 0, service = ''fallback'',
                  metadata = [(''warning'', ''No translation service available'')]\<rparr>"
proof -
  have look: "(if use_cache
               then cache_lookup md5 (services mgr) (service_priority mgr) (cache mgr) txt src tgt []
               else (Inr None, cache mgr, []))
              = (Inr None, cache mgr,
                 if use_cache
                 then map CacheGet (filter (\<lambda>n. services mgr n \<noteq> None) (service_priority mgr))
                 else [])"
    using cold cache_lookup_all_miss [of "service_priority mgr" "services mgr" md5 "cache mgr"
        "txt" src tgt "[]"]
    by simp
  let ?asked = "if use_cache
                 then map CacheGet (filter (\<lambda>n. services mgr n \<noteq> None) (service_priority mgr))
                 else []"
  obtain r c2 made where t: "try_services md5 re_sub now (services mgr) (terminology mgr) use_cache
      (service_priority mgr) (cache mgr) txt src tgt ?asked = (r, c2, made)"
    using prod_cases3 by blast
  have "fst (try_services md5 re_sub now (services mgr) (terminology mgr) use_cache
      (service_priority mgr) (cache mgr) txt src tgt ?asked)
        = \<lparr>original_text = txt,
           translated_text = apply_terminology re_sub (terminology mgr) txt src tgt,
           source_lang = src, target_lang = tgt, confidence = 0, service = ''fallback'',
           metadata = [(''warning'', ''No translation service available'')]\<rparr>"
    using fb inv listed down by (rule try_services_fallback)
  with t have "r = \<lparr>original_text = txt,
           translated_text = apply_terminology re_sub (terminology mgr) txt src tgt,
           source_lang = src, target_lang = tgt, confidence = 0, service = ''fallback'',
           metadata = [(''warning'', ''No translation service available'')]\<rparr>"
    by simp
  with nb t show ?thesis
    by (simp only: translate_def look if_False prod.case sum.case option.case fst_conv)
qed

lemma keyless_services:
  "services keyless_manager ''Fallback'' = Some FallbackTranslator"
  "services keyless_manager ''DeepL'' = None"
  "services keyless_manager ''OpenAI'' = None"
  "services keyless_manager ''Google'' = None"
  by (simp_all add: keyless_manager_def TranslationManager_init_def init_services_def)

lemma keyless_priority:
  "service_priority keyless_manager = [''DeepL'', ''OpenAI'', ''Google'', ''Fallback'']"
  by (simp add: keyless_manager_def TranslationManager_init_def)

lemma keyless_cache:
  "cache keyless_manager
     = \<lparr>max_memory_size = 1000, memory_cache = [], access_order = [], translations_table = []\<rparr>"
  by (simp add: keyless_manager_def TranslationManager_init_def TranslationCache_init_def)

lemma keyless_terminology: "terminology keyless_manager = default_terminology"
  by (simp add: keyless_manager_def TranslationManager_init_def)

lemma keyless_falls_back:
  assumes "\<not> blank txt"
  shows "fst (translate plain_digest re_sub_ascii now keyless_manager txt src tgt True)
           = Inr \<lparr>original_text = txt,
                  translated_text = apply_terminology re_sub_ascii default_terminology txt src tgt,
                  source_lang = src, target_lang = tgt, confidence = 0, service = ''fallback'',
                  metadata = [(''warning'', ''No translation service available'')]\<rparr>"
proof -
  have inv: "cache_inv (cache keyless_manager)"
    by (simp add: keyless_cache cache_inv_def)
  have listed: "''Fallback'' \<in> set (service_priority keyless_manager)"
    by (simp add: keyless_priority)
  have down: "\<forall>n \<in> set (service_priority keyless_manager). \<forall>p.
                 services keyless_manager n = Some p \<and> n \<noteq> ''Fallback''
                 \<longrightarrow> \<not> is_available p
                     \<or> (\<exists>e. translate_single p
                               \<lparr>req_text = txt, req_source_lang = src, req_target_lang = tgt\<rparr> = Inl e)"
    by (simp add: keyless_priority keyless_services)
  have cold: "True \<longrightarrow> (\<forall>n \<in> set (service_priority keyless_manager).
                 services keyless_manager n \<noteq> None
                 \<longrightarrow> \<not> cached plain_digest (cache keyless_manager) txt src tgt n)"
    by (simp add: keyless_priority keyless_services keyless_cache cached_def)
  show ?thesis
    using translate_falls_back [OF inv assms keyless_services(1) listed down cold,
        of re_sub_ascii now]
    by (simp add: keyless_terminology)
qed

lemma video_terminology:
  "apply_terminology re_sub_ascii default_terminology ''video'' ''en'' ''zh'' = shipin"
  by (simp add: apply_terminology_def default_terminology_def re_sub_ascii_def word_char_def
      ascii_lower_def shipin_def zimu_def fanyi_def yuyin_shibie_def rengong_zhineng_def)

subsection \<open>Without failures nothing changes\<close>

lemma get_no_failures: "get_or_raise no_failures md5 c txt src tgt svc = get md5 c txt src tgt svc"
  by (simp add: get_or_raise_def no_failures_def)

lemma store_no_failures: "store_or_raise no_failures md5 now c r = store md5 now c r"
  by (cases "store md5 now c r") (auto simp: store_or_raise_def no_failures_def split: option.splits)

lemma substitute_terms_no_failures:
  "substitute_terms no_failures re_sub pairs res
     = Inr (foldl (\<lambda>res (source_term, target_term). re_sub source_term target_term res) res pairs)"
  by (induction pairs arbitrary: res) (auto simp: no_failures_def)

lemma apply_terminology_no_failures:
  "apply_terminology_or_raise no_failures re_sub terms txt src tgt
     = Inr (apply_terminology re_sub terms txt src tgt)"
  by (simp add: apply_terminology_or_raise_def apply_terminology_def substitute_terms_no_failures
      split: option.splits)

lemma cache_lookup_no_failures:
  "cache_lookup_or_raise no_failures md5 svcs prio c txt src tgt calls_made
     = cache_lookup md5 svcs prio c txt src tgt calls_made"
  by (induction prio arbitrary: c calls_made)
    (simp_all add: get_no_failures cong: option.case_cong prod.case_cong sum.case_cong)

lemma try_services_no_failures:
  "try_services_or_raise no_failures md5 re_sub now svcs terms use_cache prio c txt src tgt calls_made
     = try_services md5 re_sub now svcs terms use_cache prio c txt src tgt calls_made"
proof (induction prio arbitrary: c calls_made)
  case Nil
  show ?case by simp
next
  case (Cons n ns)
  show ?case
  proof (cases "svcs n")
    case None
    with Cons show ?thesis by simp
  next
    case (Some p)
    show ?thesis
    proof (cases "is_available p")
      case False
      with Some Cons show ?thesis by simp
    next
      case True
      show ?thesis
      proof (cases "translate_single p \<lparr>req_text = txt, req_source_lang = src, req_target_lang = tgt\<rparr>")
        case (Inl e)
        with Some True Cons show ?thesis by simp
      next
        case (Inr r)
        show ?thesis
        proof (cases use_cache)
          case False
          with Some True Inr show ?thesis
            by (simp add: apply_terminology_no_failures Let_def)
        next
          case uc: True
          obtain e c1 where st: "store md5 now c
              (r\<lparr>translated_text := apply_terminology re_sub terms (translated_text r) src tgt\<rparr>)
              = (e, c1)"
            by force
          with Some True Inr uc Cons [of c1] show ?thesis
            by (cases e) (simp_all add: store_no_failures apply_terminology_no_failures Let_def)
        qed
      qed
    qed
  qed
qed

lemma translate_no_failures:
  "translate_or_raise no_failures md5 re_sub now mgr txt src tgt use_cache
     = translate md5 re_sub now mgr txt src tgt use_cache"
  unfolding translate_or_raise_def translate_def cache_lookup_no_failures
    try_services_no_failures ..

subsection \<open>What \<open>translate\<close> raises, and where failover ends\<close>

lemma translate_raises_lookup:
  assumes "fst (translate_or_raise fl md5 re_sub now mgr txt src tgt use_cache) = Inl e"
  shows "use_cache
         \<and> fst (cache_lookup_or_raise fl md5 (services mgr) (service_priority mgr) (cache mgr)
                  txt src tgt []) = Inl e"
proof (cases "blank txt")
  case True
  with assms show ?thesis
    by (simp add: translate_or_raise_def)
next
  case nb: False
  show ?thesis
  proof (cases use_cache)
    case False
    with nb assms show ?thesis
      by (simp add: translate_or_raise_def split: prod.splits)
  next
    case True
    obtain res c1 log1 where look:
      "cache_lookup_or_raise fl md5 (services mgr) (service_priority mgr) (cache mgr) txt src tgt []
         = (res, c1, log1)"
      using prod_cases3 by blast
    show ?thesis
    proof (cases res)
      case (Inl e')
      with nb True look assms show ?thesis
        by (simp add: translate_or_raise_def)
    next
      case (Inr found)
      with nb True look assms show ?thesis
        by (cases found) (simp_all add: translate_or_raise_def split: prod.splits)
    qed
  qed
qed

text \<open>
  When neither the encoding of a key nor the reading of the table raises for the
  configured services, the first loop is the loop without failures.
\<close>

lemma cache_lookup_quiet:
  assumes "\<forall>n \<in> set prio. svcs n \<noteq> None
             \<longrightarrow> encode_raises fl (key_str txt src tgt n) = None
                 \<and> select_raises fl (generate_key md5 txt src tgt n) = None"
  shows "cache_lookup_or_raise fl md5 svcs prio c txt src tgt calls_made
           = cache_lookup md5 svcs prio c txt src tgt calls_made"
  using assms
proof (induction prio arbitrary: c calls_made)
  case Nil
  show ?case by simp
next
  case (Cons n ns)
  show ?case
  proof (cases "svcs n")
    case None
    with Cons show ?thesis by simp
  next
    case (Some p)
    with Cons.prems have "get_or_raise fl md5 c txt src tgt n = get md5 c txt src tgt n"
      by (simp add: get_or_raise_def)
    with Some Cons show ?thesis
      by (simp cong: option.case_cong prod.case_cong sum.case_cong)
  qed
qed

lemma store_or_raise_inv:
  assumes "cache_inv c"
  shows "cache_inv (snd (store_or_raise fl md5 now c r))"
proof -
  from store_ok [OF assms, of md5 now r] obtain c' where
    "store md5 now c r = (None, c')" "cache_inv c'"
    by blast
  with assms show ?thesis
    by (simp add: store_or_raise_def cache_inv_def split: option.splits)
qed

lemma store_or_raise_fails_iff:
  assumes "cache_inv c"
  shows "fst (store_or_raise fl md5 now c r) = None \<longleftrightarrow>
           encode_raises fl (key_str (original_text r) (source_lang r) (target_lang r) (service r))
             = None
           \<and> insert_raises fl
                (generate_key md5 (original_text r) (source_lang r) (target_lang r) (service r)) r
             = None"
proof -
  from store_ok [OF assms, of md5 now r] obtain c' where
    "store md5 now c r = (None, c')"
    by blast
  then show ?thesis
    by (simp add: store_or_raise_def split: option.splits)
qed

text \<open>
  The second loop when the fallback translator is configured and listed and every
  other configured provider is unavailable or raises: it ends at the fallback
  translator when the substitution of the glossary and the cache write succeed for its
  result, and with the emergency result otherwise.
\<close>

lemma try_services_fallback_ok:
  assumes fb: "svcs ''Fallback'' = Some FallbackTranslator"
    and inv: "cache_inv c"
    and listed: "''Fallback'' \<in> set prio"
    and down: "\<forall>n \<in> set prio. \<forall>p. svcs n = Some p \<and> n \<noteq> ''Fallback''
                 \<longrightarrow> \<not> is_available p
                     \<or> (\<exists>e. translate_single p
                               \<lparr>req_text = txt, req_source_lang = src, req_target_lang = tgt\<rparr> = Inl e)"
    and subst: "apply_terminology_or_raise fl re_sub terms txt src tgt = Inr s"
    and written: "use_cache \<longrightarrow>
       fst (store_or_raise fl md5 now c
              \<lparr>original_text = txt, translated_text = s, source_lang = src, target_lang = tgt,
               confidence = 0, service = ''fallback'',
               metadata = [(''warning'', ''No translation service available'')]\<rparr>) = None"
  shows "fst (try_services_or_raise fl md5 re_sub now svcs terms use_cache prio c txt src tgt
                calls_made)
           = \<lparr>original_text = txt, translated_text = s, source_lang = src, target_lang = tgt,
              confidence = 0, service = ''fallback'',
              metadata = [(''warning'', ''No translation service available'')]\<rparr>"
  using listed down
proof (induction prio arbitrary: calls_made)
  case Nil
  then show ?case by simp
next
  case (Cons n ns)
  let ?r1 = "\<lparr>original_text = txt, translated_text = s, source_lang = src, target_lang = tgt,
              confidence = 0, service = ''fallback'',
              metadata = [(''warning'', ''No translation service available'')]\<rparr>"
  show ?case
  proof (cases "n = ''Fallback''")
    case True
    show ?thesis
    proof (cases use_cache)
      case uc: True
      with written obtain c' where "store_or_raise fl md5 now c ?r1 = (None, c')"
        by (metis fst_conv surj_pair)
      with True fb uc subst show ?thesis
        by (simp add: FallbackTranslator_def fallback_translate_single_def Let_def)
    next
      case False
      with True fb subst show ?thesis
        by (simp add: FallbackTranslator_def fallback_translate_single_def Let_def)
    qed
  next
    case False
    with Cons.prems(1) have later: "''Fallback'' \<in> set ns"
      by simp
    from Cons.prems(2) have down': "\<forall>n \<in> set ns. \<forall>p. svcs n = Some p \<and> n \<noteq> ''Fallback''
                 \<longrightarrow> \<not> is_available p
                     \<or> (\<exists>e. translate_single p
                               \<lparr>req_text = txt, req_source_lang = src, req_target_lang = tgt\<rparr> = Inl e)"
      by simp
    note IH = Cons.IH [OF later down']
    show ?thesis
    proof (cases "svcs n")
      case None
      with IH show ?thesis by simp
    next
      case (Some p)
      with Cons.prems(2) False have
        "\<not> is_available p
         \<or> (\<exists>e. translate_single p
                  \<lparr>req_text = txt, req_source_lang = src, req_target_lang = tgt\<rparr> = Inl e)"
        by simp
      then show ?thesis
      proof
        assume "\<not> is_available p"
        with Some IH show ?thesis by simp
      next
        assume "\<exists>e. translate_single p
                  \<lparr>req_text = txt, req_source_lang = src, req_target_lang = tgt\<rparr> = Inl e"
        then obtain e where "translate_single p
                  \<lparr>req_text = txt, req_source_lang = src, req_target_lang = tgt\<rparr> = Inl e"
          by blast
        with Some IH show ?thesis by simp
      qed
    qed
  qed
qed

lemma try_services_fallback_fails:
  assumes fb: "svcs ''Fallback'' = Some FallbackTranslator"
    and down: "\<forall>n \<in> set prio. \<forall>p. svcs n = Some p \<and> n \<noteq> ''Fallback''
                 \<longrightarrow> \<not> is_available p
                     \<or> (\<exists>e. translate_single p
                               \<lparr>req_text = txt, req_source_lang = src, req_target_lang = tgt\<rparr> = Inl e)"
    and fails: "\<forall>s. apply_terminology_or_raise fl re_sub terms txt src tgt = Inr s
                  \<longrightarrow> use_cache
                      \<and> (encode_raises fl (key_str txt src tgt ''fallback'') \<noteq> None
                         \<or> insert_raises fl (generate_key md5 txt src tgt ''fallback'')
                              \<lparr>original_text = txt, translated_text = s, source_lang = src,
                               target_lang = tgt, confidence = 0, service = ''fallback'',
                               metadata = [(''warning'', ''No translation service available'')]\<rparr>
                            \<noteq> None)"
    and inv: "cache_inv c"
  shows "fst (try_services_or_raise fl md5 re_sub now svcs terms use_cache prio c txt src tgt
                calls_made)
           = emergency_fallback txt src tgt"
  using down inv
proof (induction prio arbitrary: c calls_made)
  case Nil
  show ?case by simp
next
  case (Cons n ns)
  from Cons.prems(1) have down': "\<forall>n \<in> set ns. \<forall>p. svcs n = Some p \<and> n \<noteq> ''Fallback''
                 \<longrightarrow> \<not> is_available p
                     \<or> (\<exists>e. translate_single p
                               \<lparr>req_text = txt, req_source_lang = src, req_target_lang = tgt\<rparr> = Inl e)"
    by simp
  note IH = Cons.IH [OF down']
  show ?case
  proof (cases "n = ''Fallback''")
    case True
    show ?thesis
    proof (cases "apply_terminology_or_raise fl re_sub terms txt src tgt")
      case (Inl e)
      with True fb IH [OF Cons.prems(2)] show ?thesis
        by (simp add: FallbackTranslator_def fallback_translate_single_def)
    next
      case (Inr s)
      let ?r1 = "\<lparr>original_text = txt, translated_text = s, source_lang = src, target_lang = tgt,
              confidence = 0, service = ''fallback'',
              metadata = [(''warning'', ''No translation service available'')]\<rparr>"
      from fails Inr have uc: use_cache
        and bad: "encode_raises fl (key_str txt src tgt ''fallback'') \<noteq> None
                  \<or> insert_raises fl (generate_key md5 txt src tgt ''fallback'') ?r1 \<noteq> None"
        by simp_all
      have "fst (store_or_raise fl md5 now c ?r1) \<noteq> None"
        using bad store_or_raise_fails_iff [OF Cons.prems(2), of fl md5 now ?r1] by simp
      then obtain e c1 where st: "store_or_raise fl md5 now c ?r1 = (Some e, c1)"
        by (metis fst_conv not_None_eq surj_pair)
      have "cache_inv c1"
        using store_or_raise_inv [OF Cons.prems(2), of fl md5 now ?r1] st by simp
      from IH [OF this] True fb Inr uc st show ?thesis
        by (simp add: FallbackTranslator_def fallback_translate_single_def Let_def)
    qed
  next
    case False
    show ?thesis
    proof (cases "svcs n")
      case None
      with IH [OF Cons.prems(2)] show ?thesis by simp
    next
      case (Some p)
      with Cons.prems(1) False have
        "\<not> is_available p
         \<or> (\<exists>e. translate_single p
                  \<lparr>req_text = txt, req_source_lang = src, req_target_lang = tgt\<rparr> = Inl e)"
        by simp
      then show ?thesis
      proof
        assume "\<not> is_available p"
        with Some IH [OF Cons.prems(2)] show ?thesis by simp
      next
        assume "\<exists>e. translate_single p
                  \<lparr>req_text = txt, req_source_lang = src, req_target_lang = tgt\<rparr> = Inl e"
        then obtain e where "translate_single p
                  \<lparr>req_text = txt, req_source_lang = src, req_target_lang = tgt\<rparr> = Inl e"
          by blast
        with Some IH [OF Cons.prems(2)] show ?thesis by simp
      qed
    qed
  qed
qed

subsection \<open>Claim C1\<close>

text \<open>
  Claim C1, as stated, promises that \<open>translate\<close> never raises and that it returns the
  input text unchanged whenever no real provider can serve the request. Neither holds.

  \<^item> \<open>translate\<close> passes the result of every provider, the fallback translator included,
    through \<open>apply_terminology\<close>. With no API key configured and an empty cache,
    \<open>translate("video", "en", "zh")\<close> returns the fallback result whose translated text
    is the glossary entry for \<open>video\<close>, not \<open>video\<close>.
  \<^item> The cache look-up stands before the \<open>try\<close>. For the text \<open>'\ud800'\<close>, which is
    not blank, \<open>_generate_key\<close> raises \<open>UnicodeEncodeError\<close> in the first \<open>cache.get\<close>, and
    the exception leaves \<open>translate\<close>.
\<close>

theorem C1_counterexample_terminology_and_raise:
  "fst (translate_or_raise no_failures plain_digest re_sub_ascii 0 keyless_manager
          ''video'' ''en'' ''zh'' True)
     = Inr \<lparr>original_text = ''video'',
            translated_text = [CHR 0xE8, CHR 0xA7, CHR 0x86, CHR 0xE9, CHR 0xA2, CHR 0x91],
            source_lang = ''en'', target_lang = ''zh'', confidence = 0, service = ''fallback'',
            metadata = [(''warning'', ''No translation service available'')]\<rparr>
   \<and> [CHR 0xE8, CHR 0xA7, CHR 0x86, CHR 0xE9, CHR 0xA2, CHR 0x91] \<noteq> ''video''
   \<and> \<not> blank lone_surrogate
   \<and> fst (translate_or_raise strict_encoding plain_digest re_sub_ascii 0 keyless_manager
            lone_surrogate ''en'' ''zh'' True)
       = Inl UnicodeEncodeError"
proof -
  have "\<not> blank ''video''"
    by (simp add: is_space_def wide_space_def)
  from keyless_falls_back [OF this, of 0 "''en''" "''zh''"]
  have one: "fst (translate_or_raise no_failures plain_digest re_sub_ascii 0 keyless_manager
          ''video'' ''en'' ''zh'' True)
     = Inr \<lparr>original_text = ''video'',
            translated_text = [CHR 0xE8, CHR 0xA7, CHR 0x86, CHR 0xE9, CHR 0xA2, CHR 0x91],
            source_lang = ''en'', target_lang = ''zh'', confidence = 0, service = ''fallback'',
            metadata = [(''warning'', ''No translation service available'')]\<rparr>"
    by (simp add: translate_no_failures video_terminology shipin_def)
  have nb: "\<not> blank lone_surrogate"
    by (simp add: lone_surrogate_def is_space_def wide_space_def)
  have enc: "encode_raises strict_encoding (key_str lone_surrogate ''en'' ''zh'' ''Fallback'')
               = Some UnicodeEncodeError"
    by (simp add: strict_encoding_def key_str_def lone_surrogate_def)
  have two: "fst (translate_or_raise strict_encoding plain_digest re_sub_ascii 0 keyless_manager
            lone_surrogate ''en'' ''zh'' True) = Inl UnicodeEncodeError"
    using nb by (simp add: translate_or_raise_def keyless_priority keyless_services
        get_or_raise_def enc)
  from one nb two show ?thesis
    by simp
qed

text \<open>
  Claim C1, amended, for a text that is not blank.

  \<^item> \<open>translate\<close> raises only what a \<open>cache.get\<close> of its first loop raises, and so only
    with caching on. On a well-formed cache it returns whenever, for the configured
    services, the key of the request can be encoded and the table can be read.
  \<^item> Suppose moreover that nothing is cached for the request under any configured
    service (or caching is off), that the fallback translator is configured and
    listed, as \<open>__init__\<close> always does, and that every other configured provider is
    unavailable or raises on the request. If the substitution of the glossary terms in
    the input text succeeds and, with caching on, the cache write of the result
    succeeds, the result has the service name \<open>fallback\<close>, confidence \<open>0.0\<close>, the input
    text as original text and the substituted input text as translated text. If the
    substitution or the cache write raises, the result is the emergency result:
    service name \<open>emergency_fallback\<close>, confidence \<open>0.0\<close>, the input text unchanged.
  \<^item> The substitution leaves the text unchanged, and does not raise, when the glossary
    has no table for the language pair.
\<close>

theorem C1_translate_falls_back:
  assumes "\<not> blank txt"
  shows "(\<forall>e. fst (translate_or_raise fl md5 re_sub now mgr txt src tgt use_cache) = Inl e
            \<longrightarrow> use_cache
                \<and> fst (cache_lookup_or_raise fl md5 (services mgr) (service_priority mgr)
                         (cache mgr) txt src tgt []) = Inl e)
         \<and> (cache_inv (cache mgr)
            \<and> (use_cache \<longrightarrow> (\<forall>n \<in> set (service_priority mgr). services mgr n \<noteq> None
                 \<longrightarrow> encode_raises fl (key_str txt src tgt n) = None
                     \<and> select_raises fl (generate_key md5 txt src tgt n) = None))
            \<longrightarrow> (\<exists>r. fst (translate_or_raise fl md5 re_sub now mgr txt src tgt use_cache) = Inr r))
         \<and> (cache_inv (cache mgr)
            \<and> (use_cache \<longrightarrow> (\<forall>n \<in> set (service_priority mgr). services mgr n \<noteq> None
                 \<longrightarrow> encode_raises fl (key_str txt src tgt n) = None
                     \<and> select_raises fl (generate_key md5 txt src tgt n) = None
                     \<and> \<not> cached md5 (cache mgr) txt src tgt n))
            \<and> services mgr ''Fallback'' = Some FallbackTranslator
            \<and> ''Fallback'' \<in> set (service_priority mgr)
            \<and> (\<forall>n \<in> set (service_priority mgr). \<forall>p. services mgr n = Some p \<and> n \<noteq> ''Fallback''
                 \<longrightarrow> \<not> is_available p
                     \<or> (\<exists>e. translate_single p
                               \<lparr>req_text = txt, req_source_lang = src, req_target_lang = tgt\<rparr> = Inl e))
            \<longrightarrow> fst (translate_or_raise fl md5 re_sub now mgr txt src tgt use_cache)
                 = Inr (case apply_terminology_or_raise fl re_sub (terminology mgr) txt src tgt of
                          Inl e \<Rightarrow> emergency_fallback txt src tgt
                        | Inr s \<Rightarrow>
                            if use_cache
                               \<and> fst (store_or_raise fl md5 now (cache mgr)
                                        \<lparr>original_text = txt, translated_text = s,
                                         source_lang = src, target_lang = tgt, confidence = 0,
                                         service = ''fallback'',
                                         metadata = [(''warning'',
                                                      ''No translation service available'')]\<rparr>)
                                   \<noteq> None
                            then emergency_fallback txt src tgt
                            else \<lparr>original_text = txt, translated_text = s,
                                  source_lang = src, target_lang = tgt, confidence = 0,
                                  service = ''fallback'',
                                  metadata = [(''warning'',
                                               ''No translation service available'')]\<rparr>))
         \<and> (map_of (terminology mgr) (src @ ''-'' @ tgt) = None
            \<longrightarrow> apply_terminology_or_raise fl re_sub (terminology mgr) txt src tgt = Inr txt)"
proof -
  let ?T = "translate_or_raise fl md5 re_sub now mgr txt src tgt use_cache"
  let ?FB = "\<lambda>s. \<lparr>original_text = txt, translated_text = s, source_lang = src, target_lang = tgt,
                   confidence = 0, service = ''fallback'',
                   metadata = [(''warning'', ''No translation service available'')]\<rparr>"
  have part1: "use_cache
               \<and> fst (cache_lookup_or_raise fl md5 (services mgr) (service_priority mgr)
                        (cache mgr) txt src tgt []) = Inl e"
    if "fst ?T = Inl e" for e
    using that by (rule translate_raises_lookup)
  have part2: "\<exists>r. fst ?T = Inr r"
    if h: "cache_inv (cache mgr)
           \<and> (use_cache \<longrightarrow> (\<forall>n \<in> set (service_priority mgr). services mgr n \<noteq> None
                 \<longrightarrow> encode_raises fl (key_str txt src tgt n) = None
                     \<and> select_raises fl (generate_key md5 txt src tgt n) = None))"
  proof (cases "fst ?T")
    case (Inr r)
    then show ?thesis by blast
  next
    case (Inl e)
    from part1 [OF this] have uc: use_cache
      and raised: "fst (cache_lookup_or_raise fl md5 (services mgr) (service_priority mgr)
                        (cache mgr) txt src tgt []) = Inl e"
      by simp_all
    from h uc have "cache_lookup_or_raise fl md5 (services mgr) (service_priority mgr)
                        (cache mgr) txt src tgt []
        = cache_lookup md5 (services mgr) (service_priority mgr) (cache mgr) txt src tgt []"
      by (intro cache_lookup_quiet) simp
    moreover from h cache_lookup_returns [of "cache mgr" md5 "services mgr" "service_priority mgr"
        "txt" src tgt "[]"]
    obtain res c' made where
      "cache_lookup md5 (services mgr) (service_priority mgr) (cache mgr) txt src tgt []
         = (Inr res, c', made)"
      by blast
    ultimately show ?thesis
      using raised by simp
  qed
  have part3: "fst ?T
      = Inr (case apply_terminology_or_raise fl re_sub (terminology mgr) txt src tgt of
               Inl e \<Rightarrow> emergency_fallback txt src tgt
             | Inr s \<Rightarrow>
                 if use_cache \<and> fst (store_or_raise fl md5 now (cache mgr) (?FB s)) \<noteq> None
                 then emergency_fallback txt src tgt
                 else ?FB s)"
    if h: "cache_inv (cache mgr)
           \<and> (use_cache \<longrightarrow> (\<forall>n \<in> set (service_priority mgr). services mgr n \<noteq> None
                 \<longrightarrow> encode_raises fl (key_str txt src tgt n) = None
                     \<and> select_raises fl (generate_key md5 txt src tgt n) = None
                     \<and> \<not> cached md5 (cache mgr) txt src tgt n))
           \<and> services mgr ''Fallback'' = Some FallbackTranslator
           \<and> ''Fallback'' \<in> set (service_priority mgr)
           \<and> (\<forall>n \<in> set (service_priority mgr). \<forall>p. services mgr n = Some p \<and> n \<noteq> ''Fallback''
                 \<longrightarrow> \<not> is_available p
                     \<or> (\<exists>e. translate_single p
                               \<lparr>req_text = txt, req_source_lang = src, req_target_lang = tgt\<rparr> = Inl e))"
  proof -
    from h have inv: "cache_inv (cache mgr)"
      and fb: "services mgr ''Fallback'' = Some FallbackTranslator"
      and listed: "''Fallback'' \<in> set (service_priority mgr)"
      and down: "\<forall>n \<in> set (service_priority mgr). \<forall>p. services mgr n = Some p \<and> n \<noteq> ''Fallback''
                 \<longrightarrow> \<not> is_available p
                     \<or> (\<exists>e. translate_single p
                               \<lparr>req_text = txt, req_source_lang = src, req_target_lang = tgt\<rparr> = Inl e)"
      by simp_all
    let ?asked = "if use_cache
                  then map CacheGet (filter (\<lambda>n. services mgr n \<noteq> None) (service_priority mgr))
                  else []"
    have look: "(if use_cache
                 then cache_lookup_or_raise fl md5 (services mgr) (service_priority mgr) (cache mgr)
                        txt src tgt []
                 else (Inr None, cache mgr, []))
                = (Inr None, cache mgr, ?asked)"
    proof (cases use_cache)
      case False
      then show ?thesis by simp
    next
      case True
      with h have quiet: "\<forall>n \<in> set (service_priority mgr). services mgr n \<noteq> None
                 \<longrightarrow> encode_raises fl (key_str txt src tgt n) = None
                     \<and> select_raises fl (generate_key md5 txt src tgt n) = None"
        and cold: "\<forall>n \<in> set (service_priority mgr). services mgr n \<noteq> None
                 \<longrightarrow> \<not> cached md5 (cache mgr) txt src tgt n"
        by simp_all
      from quiet have "cache_lookup_or_raise fl md5 (services mgr) (service_priority mgr)
                        (cache mgr) txt src tgt []
          = cache_lookup md5 (services mgr) (service_priority mgr) (cache mgr) txt src tgt []"
        by (rule cache_lookup_quiet)
      with cache_lookup_all_miss [OF cold, of "[]"] True show ?thesis
        by simp
    qed
    obtain r c2 made where t: "try_services_or_raise fl md5 re_sub now (services mgr)
        (terminology mgr) use_cache (service_priority mgr) (cache mgr) txt src tgt ?asked
        = (r, c2, made)"
      using prod_cases3 by blast
    have T: "fst ?T = Inr r"
      using assms t
      by (simp only: translate_or_raise_def look if_False prod.case sum.case option.case fst_conv)
    have "r = (case apply_terminology_or_raise fl re_sub (terminology mgr) txt src tgt of
               Inl e \<Rightarrow> emergency_fallback txt src tgt
             | Inr s \<Rightarrow>
                 if use_cache \<and> fst (store_or_raise fl md5 now (cache mgr) (?FB s)) \<noteq> None
                 then emergency_fallback txt src tgt
                 else ?FB s)"
    proof (cases "apply_terminology_or_raise fl re_sub (terminology mgr) txt src tgt")
      case (Inl e)
      then have "\<forall>s. apply_terminology_or_raise fl re_sub (terminology mgr) txt src tgt = Inr s
                  \<longrightarrow> use_cache
                      \<and> (encode_raises fl (key_str txt src tgt ''fallback'') \<noteq> None
                         \<or> insert_raises fl (generate_key md5 txt src tgt ''fallback'') (?FB s)
                            \<noteq> None)"
        by simp
      from try_services_fallback_fails [OF fb down this inv, of now ?asked] t Inl
      show ?thesis by simp
    next
      case (Inr s)
      show ?thesis
      proof (cases "use_cache \<and> fst (store_or_raise fl md5 now (cache mgr) (?FB s)) \<noteq> None")
        case True
        with store_or_raise_fails_iff [OF inv, of fl md5 now "?FB s"] Inr
        have "\<forall>s. apply_terminology_or_raise fl re_sub (terminology mgr) txt src tgt = Inr s
                  \<longrightarrow> use_cache
                      \<and> (encode_raises fl (key_str txt src tgt ''fallback'') \<noteq> None
                         \<or> insert_raises fl (generate_key md5 txt src tgt ''fallback'') (?FB s)
                            \<noteq> None)"
          by auto
        from try_services_fallback_fails [OF fb down this inv, of now ?asked] t
        have "r = emergency_fallback txt src tgt"
          by simp
        then show ?thesis
          using True by (simp add: Inr)
      next
        case False
        then have w: "use_cache \<longrightarrow> fst (store_or_raise fl md5 now (cache mgr) (?FB s)) = None"
          by simp
        from try_services_fallback_ok [OF fb inv listed down Inr w, of ?asked] t
        have "r = ?FB s"
          by simp
        then show ?thesis
          using False by (auto simp: Inr)
      qed
    qed
    with T show ?thesis
      by simp
  qed
  have part4: "apply_terminology_or_raise fl re_sub (terminology mgr) txt src tgt = Inr txt"
    if "map_of (terminology mgr) (src @ ''-'' @ tgt) = None"
    using that by (simp add: apply_terminology_or_raise_def)
  show ?thesis
    using part1 part2 part3 part4 by (intro conjI allI impI) blast+
qed

text \<open>
  The theorem at work. On the repository's own fallback test (no API key, the text
  \<open>Hello\<close> from \<open>en\<close> to \<open>zh-CN\<close>, nothing failing) the glossary has no table for the pair
  and the text comes back unchanged from the fallback translator. After
  \<open>add_term('en', 'fr', 'hello', '\q')\<close> the substitution raises for the text \<open>hello\<close>
  from \<open>en\<close> to \<open>fr\<close>, the fallback translator counts as failed, and the emergency
  result comes back.
\<close>

theorem C1_translate_falls_back_witness:
  "fst (translate_or_raise no_failures plain_digest re_sub_ascii 0 keyless_manager
          ''Hello'' ''en'' ''zh-CN'' True)
     = Inr \<lparr>original_text = ''Hello'', translated_text = ''Hello'',
            source_lang = ''en'', target_lang = ''zh-CN'', confidence = 0, service = ''fallback'',
            metadata = [(''warning'', ''No translation service available'')]\<rparr>
   \<and> fst (translate_or_raise bad_escape plain_digest re_sub_ascii 0 bad_term_manager
            ''hello'' ''en'' ''fr'' True)
       = Inr \<lparr>original_text = ''hello'', translated_text = ''hello'',
              source_lang = ''en'', target_lang = ''fr'', confidence = 0,
              service = ''emergency_fallback'',
              metadata = [(''error'', ''All services failed including fallback'')]\<rparr>"
proof -
  have bt: "services bad_term_manager = services keyless_manager"
    "service_priority bad_term_manager = service_priority keyless_manager"
    "cache bad_term_manager = cache keyless_manager"
    by (simp_all add: bad_term_manager_def)
  have inv: "cache_inv (cache keyless_manager)"
    by (simp add: keyless_cache cache_inv_def)
  have listed: "''Fallback'' \<in> set (service_priority keyless_manager)"
    by (simp add: keyless_priority)
  have down: "\<forall>n \<in> set (service_priority keyless_manager). \<forall>p.
                 services keyless_manager n = Some p \<and> n \<noteq> ''Fallback''
                 \<longrightarrow> \<not> is_available p
                     \<or> (\<exists>e. translate_single p
                               \<lparr>req_text = t, req_source_lang = ''en'',
                                req_target_lang = l\<rparr> = Inl e)" for t l
    by (simp add: keyless_priority keyless_services)
  have quiet1: "True \<longrightarrow> (\<forall>n \<in> set (service_priority keyless_manager).
                 services keyless_manager n \<noteq> None
                 \<longrightarrow> encode_raises no_failures (key_str ''Hello'' ''en'' ''zh-CN'' n) = None
                     \<and> select_raises no_failures (generate_key plain_digest ''Hello'' ''en'' ''zh-CN'' n)
                         = None
                     \<and> \<not> cached plain_digest (cache keyless_manager) ''Hello'' ''en'' ''zh-CN'' n)"
    by (simp add: keyless_priority keyless_services keyless_cache cached_def no_failures_def)
  have quiet2: "True \<longrightarrow> (\<forall>n \<in> set (service_priority keyless_manager).
                 services keyless_manager n \<noteq> None
                 \<longrightarrow> encode_raises bad_escape (key_str ''hello'' ''en'' ''fr'' n) = None
                     \<and> select_raises bad_escape (generate_key plain_digest ''hello'' ''en'' ''fr'' n)
                         = None
                     \<and> \<not> cached plain_digest (cache keyless_manager) ''hello'' ''en'' ''fr'' n)"
    by (simp add: keyless_priority keyless_services keyless_cache cached_def bad_escape_def
        no_failures_def)
  have sub1: "apply_terminology_or_raise no_failures re_sub_ascii (terminology keyless_manager)
                ''Hello'' ''en'' ''zh-CN'' = Inr ''Hello''"
    by (simp add: apply_terminology_or_raise_def keyless_terminology default_terminology_def)
  have sub2: "apply_terminology_or_raise bad_escape re_sub_ascii (terminology bad_term_manager)
                ''hello'' ''en'' ''fr'' = Inl RegexError"
    by (simp add: apply_terminology_or_raise_def bad_term_manager_def default_terminology_def
        bad_escape_def no_failures_def)
  have nb2: "\<not> blank ''hello''"
    by (simp add: is_space_def wide_space_def)
  have st1: "fst (store_or_raise no_failures plain_digest 0 (cache keyless_manager) r) = None" for r
    using store_ok [OF inv, of plain_digest 0 r] by (auto simp: store_no_failures)
  show ?thesis
    using C1_translate_falls_back [OF not_blank_Hello, where fl = no_failures
        and ?md5.0 = plain_digest and re_sub = re_sub_ascii and now = 0 and mgr = keyless_manager
        and src = "''en''" and tgt = "''zh-CN''" and use_cache = True]
      C1_translate_falls_back [OF nb2, where fl = bad_escape
        and ?md5.0 = plain_digest and re_sub = re_sub_ascii and now = 0 and mgr = bad_term_manager
        and src = "''en''" and tgt = "''fr''" and use_cache = True]
      inv listed down keyless_services(1) quiet1 quiet2
    by (simp add: bt sub1 sub2 st1 emergency_fallback_def)
qed

section \<open>Properties of \<open>translate_batch\<close>\<close>

subsection \<open>The first loop\<close>

text \<open>The loop over a list of texts followed by more texts.\<close>

lemma check_cache_each_append:
  "check_cache_each md5 svcs prio src tgt use_cache j (xs @ ys) results U UT c calls_made =
     (case check_cache_each md5 svcs prio src tgt use_cache j xs results U UT c calls_made of
        (Inl e, c1, made1) \<Rightarrow> (Inl e, c1, made1)
      | (Inr (results1, U1, UT1), c1, made1) \<Rightarrow>
          check_cache_each md5 svcs prio src tgt use_cache (j + length xs) ys results1 U1 UT1
            c1 made1)"
proof (induction xs arbitrary: j results U UT c calls_made)
  case Nil
  show ?case by simp
next
  case (Cons t ts)
  show ?case
  proof (cases "blank t")
    case True
    with Cons [of "j + 1"] show ?thesis
      by (simp cong: prod.case_cong sum.case_cong)
  next
    case nb: False
    obtain res c1 made1 where look:
      "(if use_cache then cache_lookup md5 svcs prio c t src tgt calls_made
        else (Inr None, c, calls_made)) = (res, c1, made1)"
      using prod_cases3 by blast
    show ?thesis
    proof (cases res)
      case (Inl e)
      with nb look show ?thesis
        by simp
    next
      case (Inr found)
      with nb look Cons [of "j + 1"] show ?thesis
        by (cases found) (simp_all cong: prod.case_cong sum.case_cong)
    qed
  qed
qed

text \<open>Book-keeping for one more position in front of a range already described.\<close>

lemma extend_first_pass:
  assumes i: "i < length texts" and len: "length results = i"
    and tk: "take (Suc i) results' = results @ [x]"
    and u: "U' = (if x = None then U @ [i] else U)
                  @ filter (\<lambda>k. results' ! k = None) [Suc i..<length texts]"
    and ut: "UT' = (if x = None then UT @ [texts ! i] else UT)
                  @ map (\<lambda>k. texts ! k) (filter (\<lambda>k. results' ! k = None) [Suc i..<length texts])"
    and later: "\<forall>k. Suc i \<le> k \<and> k < length texts \<longrightarrow> P k (results' ! k)"
    and here: "P i x"
  shows "take i results' = results
         \<and> U' = U @ filter (\<lambda>k. results' ! k = None) [i..<length texts]
         \<and> UT' = UT @ map (\<lambda>k. texts ! k) (filter (\<lambda>k. results' ! k = None) [i..<length texts])
         \<and> (\<forall>k. i \<le> k \<and> k < length texts \<longrightarrow> P k (results' ! k))"
proof -
  have "take (Suc i) results' ! i = results' ! i"
    by simp
  moreover have "(results @ [x]) ! i = x"
    using len by (simp add: nth_append)
  ultimately have at_i: "results' ! i = x"
    using tk by simp
  have "take i (take (Suc i) results') = take i results'"
    by (simp add: min_def)
  with tk len have t: "take i results' = results"
    by simp
  have range: "[i..<length texts] = i # [Suc i..<length texts]"
    using i by (simp add: upt_conv_Cons)
  have p: "P k (results' ! k)" if "i \<le> k" "k < length texts" for k
  proof (cases "k = i")
    case True
    with here at_i show ?thesis by simp
  next
    case False
    with that later show ?thesis by simp
  qed
  show ?thesis
    using t u ut p by (simp add: range at_i)
qed

lemma check_cache_each_ok:
  assumes "cache_inv c" and "length results = i" and "rest = drop i texts" and "i \<le> length texts"
    and "check_cache_each md5 svcs prio src tgt use_cache 0 (take i texts) [] [] [] c0 []
           = (Inr (results, U, UT), c, calls_made)"
  shows "\<exists>results' U' UT' c' made'.
           check_cache_each md5 svcs prio src tgt use_cache i rest results U UT c calls_made
             = (Inr (results', U', UT'), c', made')
           \<and> cache_inv c'
           \<and> length results' = length texts
           \<and> take i results' = results
           \<and> U' = U @ filter (\<lambda>k. results' ! k = None) [i..<length texts]
           \<and> UT' = UT @ map (\<lambda>k. texts ! k) (filter (\<lambda>k. results' ! k = None) [i..<length texts])
           \<and> (\<forall>k. i \<le> k \<and> k < length texts
                 \<longrightarrow> first_pass_entry md5 svcs prio src tgt use_cache texts c0 k (results' ! k))"
  using assms
proof (induction rest arbitrary: i results U UT c calls_made)
  case Nil
  then have "i = length texts" by simp
  with Nil show ?case by auto
next
  case (Cons t rest)
  from Cons.prems(3) have i: "i < length texts"
    by (metis drop_eq_Nil list.distinct(1) not_le)
  with Cons.prems(3) have t: "texts ! i = t" and rest: "rest = drop (Suc i) texts"
    by (simp_all add: Cons_nth_drop_Suc [symmetric])
  have tk1: "take (Suc i) texts = take i texts @ [t]"
    using i t by (simp add: take_Suc_conv_app_nth)
  have prefix: "check_cache_each md5 svcs prio src tgt use_cache 0 (take (i + 1) texts) [] [] [] c0 []
      = check_cache_each md5 svcs prio src tgt use_cache i [t] results U UT c calls_made"
  proof -
    have "check_cache_each md5 svcs prio src tgt use_cache 0 (take i texts @ [t]) [] [] [] c0 []
        = check_cache_each md5 svcs prio src tgt use_cache (0 + length (take i texts)) [t]
            results U UT c calls_made"
      by (simp only: check_cache_each_append Cons.prems(5) prod.case sum.case)
    then show ?thesis
      using i by (simp add: tk1 min_def del: check_cache_each.simps)
  qed
  have state: "first_pass_state md5 svcs prio src tgt use_cache texts c0 i = (c, calls_made)"
    by (simp add: first_pass_state_def Cons.prems(5))
  have step: "\<exists>results' U' UT' c' made'.
           check_cache_each md5 svcs prio src tgt use_cache (i + 1) rest (results @ [x])
               (if x = None then U @ [i] else U) (if x = None then UT @ [t] else UT) c1 made1
             = (Inr (results', U', UT'), c', made')
           \<and> cache_inv c'
           \<and> length results' = length texts
           \<and> take i results' = results
           \<and> U' = U @ filter (\<lambda>k. results' ! k = None) [i..<length texts]
           \<and> UT' = UT @ map (\<lambda>k. texts ! k) (filter (\<lambda>k. results' ! k = None) [i..<length texts])
           \<and> (\<forall>k. i \<le> k \<and> k < length texts
                 \<longrightarrow> first_pass_entry md5 svcs prio src tgt use_cache texts c0 k (results' ! k))"
    if c1: "cache_inv c1" and x: "first_pass_entry md5 svcs prio src tgt use_cache texts c0 i x"
      and one: "check_cache_each md5 svcs prio src tgt use_cache i [t] results U UT c calls_made
                  = (Inr (results @ [x], if x = None then U @ [i] else U,
                          if x = None then UT @ [t] else UT), c1, made1)"
    for x c1 made1
  proof -
    have l: "length (results @ [x]) = i + 1"
      using Cons.prems(2) by simp
    have r: "rest = drop (i + 1) texts"
      using rest by simp
    have le: "i + 1 \<le> length texts"
      using i by simp
    have pre: "check_cache_each md5 svcs prio src tgt use_cache 0 (take (i + 1) texts) [] [] [] c0 []
        = (Inr (results @ [x], if x = None then U @ [i] else U,
                if x = None then UT @ [t] else UT), c1, made1)"
      using prefix one by simp
    from Cons.IH [OF c1 l r le pre]
    obtain results' U' UT' c' made' where
      run: "check_cache_each md5 svcs prio src tgt use_cache (i + 1) rest (results @ [x])
               (if x = None then U @ [i] else U) (if x = None then UT @ [t] else UT) c1 made1
             = (Inr (results', U', UT'), c', made')"
      and inv: "cache_inv c'" and len: "length results' = length texts"
      and tk: "take (i + 1) results' = results @ [x]"
      and u: "U' = (if x = None then U @ [i] else U)
                  @ filter (\<lambda>k. results' ! k = None) [i + 1..<length texts]"
      and ut: "UT' = (if x = None then UT @ [t] else UT)
                  @ map (\<lambda>k. texts ! k) (filter (\<lambda>k. results' ! k = None) [i + 1..<length texts])"
      and later: "\<forall>k. i + 1 \<le> k \<and> k < length texts
                 \<longrightarrow> first_pass_entry md5 svcs prio src tgt use_cache texts c0 k (results' ! k)"
      by blast
    have tk': "take (Suc i) results' = results @ [x]"
      using tk by simp
    have u': "U' = (if x = None then U @ [i] else U)
                  @ filter (\<lambda>k. results' ! k = None) [Suc i..<length texts]"
      using u by simp
    have ut': "UT' = (if x = None then UT @ [texts ! i] else UT)
                  @ map (\<lambda>k. texts ! k) (filter (\<lambda>k. results' ! k = None) [Suc i..<length texts])"
      using ut t by simp
    have later': "\<forall>k. Suc i \<le> k \<and> k < length texts
                 \<longrightarrow> first_pass_entry md5 svcs prio src tgt use_cache texts c0 k (results' ! k)"
      using later by simp
    have "take i results' = results
         \<and> U' = U @ filter (\<lambda>k. results' ! k = None) [i..<length texts]
         \<and> UT' = UT @ map (\<lambda>k. texts ! k) (filter (\<lambda>k. results' ! k = None) [i..<length texts])
         \<and> (\<forall>k. i \<le> k \<and> k < length texts
               \<longrightarrow> first_pass_entry md5 svcs prio src tgt use_cache texts c0 k (results' ! k))"
      using i Cons.prems(2) tk' u' ut' later' x
      by (rule extend_first_pass
          [where P = "\<lambda>k e. first_pass_entry md5 svcs prio src tgt use_cache texts c0 k e"])
    with run inv len show ?thesis by blast
  qed
  show ?case
  proof (cases "blank t")
    case True
    have e: "first_pass_entry md5 svcs prio src tgt use_cache texts c0 i (Some (passthrough t src tgt))"
      using True t by (simp add: first_pass_entry_def)
    have one: "check_cache_each md5 svcs prio src tgt use_cache i [t] results U UT c calls_made
        = (Inr (results @ [Some (passthrough t src tgt)], U, UT), c, calls_made)"
      using True by simp
    from step [OF Cons.prems(1) e, of calls_made] one True show ?thesis
      by simp
  next
    case nb: False
    show ?thesis
    proof (cases use_cache)
      case False
      have e: "first_pass_entry md5 svcs prio src tgt use_cache texts c0 i None"
        using nb t by (simp add: first_pass_entry_def)
      have one: "check_cache_each md5 svcs prio src tgt use_cache i [t] results U UT c calls_made
        = (Inr (results @ [None], U @ [i], UT @ [t]), c, calls_made)"
        using nb False by simp
      from step [OF Cons.prems(1) e, of calls_made] one nb False show ?thesis
        by simp
    next
      case True
      from cache_lookup_returns [OF Cons.prems(1), of md5 svcs prio t src tgt calls_made]
      obtain res c1 made1 where
        look: "cache_lookup md5 svcs prio c t src tgt calls_made = (Inr res, c1, made1)"
        and c1: "cache_inv c1"
        by blast
      have e: "first_pass_entry md5 svcs prio src tgt use_cache texts c0 i res"
        using nb True t look state
        by (cases res) (simp_all add: first_pass_entry_def cache_answer_def)
      have one: "check_cache_each md5 svcs prio src tgt use_cache i [t] results U UT c calls_made
        = (Inr (results @ [res], if res = None then U @ [i] else U,
                if res = None then UT @ [t] else UT), c1, made1)"
        using nb True look by (cases res) simp_all
      from step [OF c1 e one] nb True look show ?thesis
        by (cases res) simp_all
    qed
  qed
qed

subsection \<open>Putting the batch results back\<close>

lemma nth_not_in_later:
  assumes "distinct U" and "i < length U"
  shows "U ! i \<notin> set (drop (Suc i) U)"
proof -
  have "U = take i U @ U ! i # drop (Suc i) U"
    using assms(2) by (rule id_take_nth_drop)
  then have "distinct (take i U @ U ! i # drop (Suc i) U)"
    using assms(1) by simp
  then show ?thesis by simp
qed

lemma place_results_ok:
  assumes "cache_inv c" and "distinct U" and "\<forall>u \<in> set U. u < length results"
    and "i + length B = length U"
  shows "\<exists>res c' made'.
           place_results md5 re_sub now terms use_cache name src tgt U i B results c calls_made
             = (Inr res, c', made')
           \<and> cache_inv c'
           \<and> length res = length results
           \<and> (\<forall>j < length B. res ! (U ! (i + j))
                 = Some ((B ! j)\<lparr>translated_text :=
                      apply_terminology re_sub terms (translated_text (B ! j)) src tgt\<rparr>))
           \<and> (\<forall>k. k \<notin> set (drop i U) \<longrightarrow> res ! k = results ! k)"
  using assms(1,3,4)
proof (induction B arbitrary: i results c calls_made)
  case Nil
  then show ?case by simp
next
  case (Cons r B)
  let ?r1 = "r\<lparr>translated_text := apply_terminology re_sub terms (translated_text r) src tgt\<rparr>"
  let ?made1 = "if use_cache then calls_made @ [CacheStore name] else calls_made"
  from Cons.prems(3) have i: "i < length U"
    by simp
  with Cons.prems(2) have here: "U ! i < length results"
    by simp
  obtain c1 where st: "(if use_cache then store md5 now c ?r1 else (None, c)) = (None, c1)"
    and c1: "cache_inv c1"
    using store_ok [OF Cons.prems(1), of md5 now ?r1] Cons.prems(1) by (cases use_cache) auto
  let ?results1 = "results[U ! i := Some ?r1]"
  have in1: "\<forall>u \<in> set U. u < length ?results1"
    using Cons.prems(2) by simp
  have len1: "(i + 1) + length B = length U"
    using Cons.prems(3) by simp
  from Cons.IH [OF c1 in1 len1, of ?made1] obtain res c' made' where
    run: "place_results md5 re_sub now terms use_cache name src tgt U (i + 1) B ?results1 c1 ?made1
            = (Inr res, c', made')"
    and inv: "cache_inv c'" and len: "length res = length ?results1"
    and put: "\<forall>j < length B. res ! (U ! ((i + 1) + j))
                 = Some ((B ! j)\<lparr>translated_text :=
                      apply_terminology re_sub terms (translated_text (B ! j)) src tgt\<rparr>)"
    and keep: "\<forall>k. k \<notin> set (drop (i + 1) U) \<longrightarrow> res ! k = ?results1 ! k"
    by blast
  have whole: "place_results md5 re_sub now terms use_cache name src tgt U i (r # B) results c
                 calls_made = (Inr res, c', made')"
    using st i here run by (simp add: Let_def)
  have first: "res ! (U ! i) = Some ?r1"
  proof -
    have "U ! i \<notin> set (drop (i + 1) U)"
      using nth_not_in_later [OF assms(2) i] by simp
    with keep have "res ! (U ! i) = ?results1 ! (U ! i)"
      by blast
    with here show ?thesis by simp
  qed
  have all: "res ! (U ! (i + j))
                 = Some (((r # B) ! j)\<lparr>translated_text :=
                      apply_terminology re_sub terms (translated_text ((r # B) ! j)) src tgt\<rparr>)"
    if "j < length (r # B)" for j
  proof (cases j)
    case 0
    with first show ?thesis by simp
  next
    case (Suc j')
    with that have "j' < length B" by simp
    with put Suc show ?thesis by simp
  qed
  have others: "res ! k = results ! k" if "k \<notin> set (drop i U)" for k
  proof -
    have d: "drop i U = U ! i # drop (Suc i) U"
      using i by (simp add: Cons_nth_drop_Suc)
    with that have "k \<noteq> U ! i" and "k \<notin> set (drop (i + 1) U)"
      by simp_all
    with keep show ?thesis by simp
  qed
  show ?case
  proof (intro exI conjI allI impI)
    show "place_results md5 re_sub now terms use_cache name src tgt U i (r # B) results c
                 calls_made = (Inr res, c', made')"
      by (rule whole)
    show "cache_inv c'" by (rule inv)
    show "length res = length results" using len by simp
    show "res ! (U ! (i + j))
                 = Some (((r # B) ! j)\<lparr>translated_text :=
                      apply_terminology re_sub terms (translated_text ((r # B) ! j)) src tgt\<rparr>)"
      if "j < length (r # B)" for j
      using that by (rule all)
    show "res ! k = results ! k" if "k \<notin> set (drop i U)" for k
      using that by (rule others)
  qed
qed

lemma fill_no_service:
  assumes "\<forall>u \<in> set U. u < length results"
  shows "length (foldl (\<lambda>res i. res[i := Some (f i)]) results U) = length results
         \<and> (\<forall>u \<in> set U. foldl (\<lambda>res i. res[i := Some (f i)]) results U ! u = Some (f u))
         \<and> (\<forall>k. k \<notin> set U \<longrightarrow> foldl (\<lambda>res i. res[i := Some (f i)]) results U ! k = results ! k)"
  using assms
proof (induction U arbitrary: results)
  case Nil
  show ?case by simp
next
  case (Cons a U)
  let ?results1 = "results[a := Some (f a)]"
  have "\<forall>u \<in> set U. u < length ?results1"
    using Cons.prems by simp
  from Cons.IH [OF this] have
    len: "length (foldl (\<lambda>res i. res[i := Some (f i)]) ?results1 U) = length ?results1"
    and put: "\<forall>u \<in> set U. foldl (\<lambda>res i. res[i := Some (f i)]) ?results1 U ! u = Some (f u)"
    and keep: "\<forall>k. k \<notin> set U \<longrightarrow> foldl (\<lambda>res i. res[i := Some (f i)]) ?results1 U ! k = ?results1 ! k"
    by simp_all
  have a: "foldl (\<lambda>res i. res[i := Some (f i)]) ?results1 U ! a = Some (f a)"
  proof (cases "a \<in> set U")
    case True
    with put show ?thesis by simp
  next
    case False
    with keep Cons.prems show ?thesis by simp
  qed
  show ?case
    using len put keep a by auto
qed

lemma first_available_configured:
  "fst (first_available svcs prio calls_made) = Some (name, p) \<Longrightarrow> svcs name = Some p"
  by (induction prio arbitrary: calls_made) (auto split: option.splits if_splits)

lemma first_available_fst:
  "fst (first_available svcs prio calls_made) = fst (first_available svcs prio [])"
proof (induction prio arbitrary: calls_made)
  case Nil
  show ?case by simp
next
  case (Cons n ns)
  show ?case
    using Cons [of "calls_made @ [Probe n]"] Cons [of "[Probe n]"] Cons [of calls_made]
    by (simp split: option.splits)
qed

subsection \<open>Order preservation\<close>

text \<open>
  Claim C9 (batch order preservation). Suppose the cache is well formed and the batch
  call of every configured provider returns one result per request (as the batch
  methods of \<open>TranslatorInterface\<close>, \<open>DeepLTranslator\<close> and \<open>FallbackTranslator\<close> are
  written to do). Then \<open>translate_batch\<close> returns a list as long as the list of texts.
  There is an increasing list \<open>uncached\<close> of positions, none of a blank text, such
  that: at every other position \<open>i\<close> stands the pass-through result of text \<open>i\<close> when
  that text is blank, and otherwise the result that the cache look-up of text \<open>i\<close>
  returned, on the cache of the manager as the look-ups of the texts before it had left
  it; the
  requests of the batch call are built from the texts at the positions \<open>uncached\<close>, in
  that order; and at position \<open>uncached ! j\<close> stands the \<open>j\<close>-th result of the batch
  call, after terminology substitution (or, when no service answers its probe, the
  no-service result of that text). So the \<open>i\<close>-th entry always belongs to the \<open>i\<close>-th
  text, whichever of the three ways produced it.
\<close>

theorem C9_batch_order:
  assumes inv: "cache_inv (cache mgr)"
    and contract: "\<forall>n p reqs. services mgr n = Some p
                     \<longrightarrow> (\<exists>B. translate_batch p reqs = Inr B \<and> length B = length reqs)"
  shows "\<exists>res c' made uncached.
           manager_translate_batch md5 re_sub now mgr texts src tgt use_cache = (Inr res, c', made)
           \<and> length res = length texts
           \<and> sorted_wrt (<) uncached
           \<and> set uncached \<subseteq> {..<length texts}
           \<and> (\<forall>i \<in> set uncached. \<not> blank (texts ! i))
           \<and> (\<forall>i < length texts. i \<notin> set uncached \<longrightarrow>
                 (\<exists>r. res ! i = Some r
                    \<and> (if blank (texts ! i) then r = passthrough (texts ! i) src tgt
                       else use_cache
                            \<and> cache_answer md5 (services mgr) (service_priority mgr) src tgt
                                 use_cache texts (cache mgr) i r)))
           \<and> (case fst (first_available (services mgr) (service_priority mgr) []) of
                 None \<Rightarrow> \<forall>i \<in> set uncached. res ! i = Some (no_service_result (texts ! i) src tgt)
               | Some (service_name, p) \<Rightarrow>
                   (\<exists>B. translate_batch p
                           (map (\<lambda>i. \<lparr>req_text = texts ! i, req_source_lang = src,
                                       req_target_lang = tgt\<rparr>) uncached) = Inr B
                       \<and> length B = length uncached
                       \<and> (\<forall>j < length uncached. res ! (uncached ! j)
                             = Some ((B ! j)\<lparr>translated_text :=
                                  apply_terminology re_sub (terminology mgr)
                                    (translated_text (B ! j)) src tgt\<rparr>))))"
proof -
  let ?n = "length texts"
  let ?req = "\<lambda>i. \<lparr>req_text = texts ! i, req_source_lang = src, req_target_lang = tgt\<rparr>"
  let ?post = "\<lambda>r. r\<lparr>translated_text :=
                   apply_terminology re_sub (terminology mgr) (translated_text r) src tgt\<rparr>"
  have "\<exists>results' U' UT' c' made'.
           check_cache_each md5 (services mgr) (service_priority mgr) src tgt use_cache 0 texts
               [] [] [] (cache mgr) [] = (Inr (results', U', UT'), c', made')
           \<and> cache_inv c'
           \<and> length results' = length texts
           \<and> take 0 results' = []
           \<and> U' = [] @ filter (\<lambda>k. results' ! k = None) [0..<length texts]
           \<and> UT' = [] @ map (\<lambda>k. texts ! k) (filter (\<lambda>k. results' ! k = None) [0..<length texts])
           \<and> (\<forall>k. 0 \<le> k \<and> k < length texts
                 \<longrightarrow> first_pass_entry md5 (services mgr) (service_priority mgr) src tgt use_cache
                       texts (cache mgr) k (results' ! k))"
    using inv by (intro check_cache_each_ok) simp_all
  then obtain results0 U UT c1 made1 where
    pass: "check_cache_each md5 (services mgr) (service_priority mgr) src tgt use_cache 0 texts
               [] [] [] (cache mgr) [] = (Inr (results0, U, UT), c1, made1)"
    and c1: "cache_inv c1" and len0: "length results0 = ?n"
    and U: "U = filter (\<lambda>k. results0 ! k = None) [0..<?n]"
    and UT: "UT = map (\<lambda>k. texts ! k) U"
    and entries: "\<forall>k < ?n. first_pass_entry md5 (services mgr) (service_priority mgr) src tgt
                     use_cache texts (cache mgr) k (results0 ! k)"
    by auto
  have sorted: "sorted_wrt (<) U"
    unfolding U by (intro sorted_wrt_filter) simp
  have dist: "distinct U"
    unfolding U by simp
  have below: "set U \<subseteq> {..<?n}"
    unfolding U by auto
  have inside: "\<forall>u \<in> set U. u < length results0"
    using below len0 by auto
  have none: "results0 ! u = None" if "u \<in> set U" for u
    using that unfolding U by simp
  have not_blank: "\<forall>i \<in> set U. \<not> blank (texts ! i)"
  proof
    fix i assume i: "i \<in> set U"
    with below have "i < ?n" by auto
    with entries none [OF i] show "\<not> blank (texts ! i)"
      by (auto simp: first_pass_entry_def)
  qed
  have served: "\<exists>r. results0 ! i = Some r
                    \<and> (if blank (texts ! i) then r = passthrough (texts ! i) src tgt
                       else use_cache
                            \<and> cache_answer md5 (services mgr) (service_priority mgr) src tgt
                                 use_cache texts (cache mgr) i r)"
    if "i < ?n" "i \<notin> set U" for i
  proof -
    from that have "results0 ! i \<noteq> None"
      unfolding U by simp
    then obtain r where r: "results0 ! i = Some r"
      by blast
    from entries that(1) have "first_pass_entry md5 (services mgr) (service_priority mgr) src tgt
                     use_cache texts (cache mgr) i (results0 ! i)"
      by simp
    with r show ?thesis
      by (simp add: first_pass_entry_def)
  qed
  have reqs: "map (\<lambda>t. \<lparr>req_text = t, req_source_lang = src, req_target_lang = tgt\<rparr>) UT
                = map ?req U"
    unfolding UT by simp
  obtain fa made2 where fa: "first_available (services mgr) (service_priority mgr) made1 = (fa, made2)"
    by force
  have fa0: "fst (first_available (services mgr) (service_priority mgr) []) = fa"
    using first_available_fst [of "services mgr" "service_priority mgr" made1] fa by simp
  show ?thesis
  proof (cases fa)
    case None
    let ?res = "foldl (\<lambda>res i. res[i := Some (no_service_result (texts ! i) src tgt)]) results0 U"
    from fill_no_service [OF inside, of "\<lambda>i. no_service_result (texts ! i) src tgt"] have
      flen: "length ?res = length results0"
      and fput: "\<forall>u \<in> set U. ?res ! u = Some (no_service_result (texts ! u) src tgt)"
      and fkeep: "\<forall>k. k \<notin> set U \<longrightarrow> ?res ! k = results0 ! k"
      by simp_all
    have run: "\<exists>c' made. manager_translate_batch md5 re_sub now mgr texts src tgt use_cache
                 = (Inr ?res, c', made)"
    proof (cases "texts = []")
      case True
      with len0 U show ?thesis
        by (simp add: manager_translate_batch_def)
    next
      case False
      then show ?thesis
        using pass fa None UT U by (simp add: manager_translate_batch_def)
    qed
    then obtain c' made where run': "manager_translate_batch md5 re_sub now mgr texts src tgt use_cache
                 = (Inr ?res, c', made)"
      by blast
    show ?thesis
    proof (intro exI conjI)
      show "manager_translate_batch md5 re_sub now mgr texts src tgt use_cache = (Inr ?res, c', made)"
        by (rule run')
      show "length ?res = ?n" using flen len0 by simp
      show "sorted_wrt (<) U" by (rule sorted)
      show "set U \<subseteq> {..<?n}" by (rule below)
      show "\<forall>i \<in> set U. \<not> blank (texts ! i)" by (rule not_blank)
      show "\<forall>i < ?n. i \<notin> set U \<longrightarrow>
                 (\<exists>r. ?res ! i = Some r
                    \<and> (if blank (texts ! i) then r = passthrough (texts ! i) src tgt
                       else use_cache
                            \<and> cache_answer md5 (services mgr) (service_priority mgr) src tgt
                                 use_cache texts (cache mgr) i r))"
        using served fkeep by simp
      show "case fst (first_available (services mgr) (service_priority mgr) []) of
                 None \<Rightarrow> \<forall>i \<in> set U. ?res ! i = Some (no_service_result (texts ! i) src tgt)
               | Some (service_name, p) \<Rightarrow>
                   (\<exists>B. translate_batch p (map ?req U) = Inr B
                       \<and> length B = length U
                       \<and> (\<forall>j < length U. ?res ! (U ! j) = Some (?post (B ! j))))"
        using fa0 None fput by simp
    qed
  next
    case (Some found)
    obtain name p where found: "found = (name, p)"
      by force
    have "services mgr name = Some p"
      using first_available_configured [of "services mgr" "service_priority mgr" "[]" name p]
        fa0 Some found by simp
    with contract obtain B where
      B: "translate_batch p (map ?req U) = Inr B" and lenB: "length B = length U"
      by (metis length_map)
    have "0 + length B = length U"
      using lenB by simp
    from place_results_ok [OF c1 dist inside this, of md5 re_sub now "terminology mgr" use_cache
        name src tgt "made2 @ [Batch name]"]
    obtain res c' made' where
      place: "place_results md5 re_sub now (terminology mgr) use_cache name src tgt U 0 B results0
                c1 (made2 @ [Batch name]) = (Inr res, c', made')"
      and plen: "length res = length results0"
      and pput: "\<forall>j < length B. res ! (U ! (0 + j)) = Some (?post (B ! j))"
      and pkeep: "\<forall>k. k \<notin> set (drop 0 U) \<longrightarrow> res ! k = results0 ! k"
      by blast
    have unchanged: "res = results0" if "U = []"
      using that lenB place by simp
    have run: "\<exists>c' made. manager_translate_batch md5 re_sub now mgr texts src tgt use_cache
                 = (Inr res, c', made)"
    proof (cases "texts = []")
      case True
      with len0 U unchanged show ?thesis
        by (simp add: manager_translate_batch_def)
    next
      case ne: False
      show ?thesis
      proof (cases "U = []")
        case True
        with ne pass UT unchanged show ?thesis
          by (simp add: manager_translate_batch_def)
      next
        case False
        then have "UT \<noteq> []"
          using UT by simp
        moreover have "translate_batch p
            (map (\<lambda>t. \<lparr>req_text = t, req_source_lang = src, req_target_lang = tgt\<rparr>) UT) = Inr B"
          using B reqs by simp
        ultimately show ?thesis
          using ne pass fa Some found place by (simp add: manager_translate_batch_def)
      qed
    qed
    then obtain c'' made where run': "manager_translate_batch md5 re_sub now mgr texts src tgt
                 use_cache = (Inr res, c'', made)"
      by blast
    show ?thesis
    proof (intro exI conjI)
      show "manager_translate_batch md5 re_sub now mgr texts src tgt use_cache = (Inr res, c'', made)"
        by (rule run')
      show "length res = ?n" using plen len0 by simp
      show "sorted_wrt (<) U" by (rule sorted)
      show "set U \<subseteq> {..<?n}" by (rule below)
      show "\<forall>i \<in> set U. \<not> blank (texts ! i)" by (rule not_blank)
      show "\<forall>i < ?n. i \<notin> set U \<longrightarrow>
                 (\<exists>r. res ! i = Some r
                    \<and> (if blank (texts ! i) then r = passthrough (texts ! i) src tgt
                       else use_cache
                            \<and> cache_answer md5 (services mgr) (service_priority mgr) src tgt
                                 use_cache texts (cache mgr) i r))"
        using served pkeep by simp
      show "case fst (first_available (services mgr) (service_priority mgr) []) of
                 None \<Rightarrow> \<forall>i \<in> set U. res ! i = Some (no_service_result (texts ! i) src tgt)
               | Some (service_name, p) \<Rightarrow>
                   (\<exists>B. translate_batch p (map ?req U) = Inr B
                       \<and> length B = length U
                       \<and> (\<forall>j < length U. res ! (U ! j) = Some (?post (B ! j))))"
        using fa0 Some found B lenB pput by simp
    qed
  qed
qed

lemma batch_manager_contract:
  "\<forall>n p reqs. services batch_manager n = Some p
     \<longrightarrow> (\<exists>B. translate_batch p reqs = Inr B \<and> length B = length reqs)"
  by (auto simp: batch_manager_def TranslationManager_init_def init_services_def
      deepl_up_def FallbackTranslator_def split: if_splits)

lemma batch_manager_inv: "cache_inv (cache batch_manager)"
  by (simp add: batch_manager_def TranslationManager_init_def TranslationCache_init_def
      cache_inv_def)

lemma batch_example:
  "map (map_option translated_text)
     (projr (fst (manager_translate_batch plain_digest re_sub_ascii 5 batch_manager
                    [''a'', ''b'', ''c''] ''en'' ''zh-CN'' True)))
   = [Some ''[a]'', Some ''(b)'', Some ''[c]'']"
  by (simp add: manager_translate_batch_def batch_manager_def TranslationManager_init_def
      init_services_def TranslationCache_init_def is_space_def wide_space_def get_def store_def
      maintain_lru_def generate_key_def plain_digest_def deepl_up_def FallbackTranslator_def
      apply_terminology_def default_terminology_def result_of_row_def row_of_result_def
      b_row_def Let_def)

text \<open>
  The theorem at work, on the example of the specification: \<open>b\<close> is served from the
  cache, \<open>a\<close> and \<open>c\<close> by one batch call, and the three results stand in the order of the
  texts.
\<close>

theorem C9_batch_order_witness:
  "\<exists>res c' made.
     manager_translate_batch plain_digest re_sub_ascii 5 batch_manager
       [''a'', ''b'', ''c''] ''en'' ''zh-CN'' True = (Inr res, c', made)
     \<and> length res = 3
     \<and> map (map_option translated_text) res = [Some ''[a]'', Some ''(b)'', Some ''[c]'']"
proof -
  from C9_batch_order [OF batch_manager_inv batch_manager_contract,
      of plain_digest re_sub_ascii 5 "[''a'', ''b'', ''c'']" "''en''" "''zh-CN''" True]
  obtain res c' made where
    "manager_translate_batch plain_digest re_sub_ascii 5 batch_manager
       [''a'', ''b'', ''c''] ''en'' ''zh-CN'' True = (Inr res, c', made)"
    "length res = length [''a'', ''b'', ''c'']"
    by blast
  then show ?thesis
    using batch_example by (intro exI [of _ res] exI [of _ c'] exI [of _ made]) simp
qed

section \<open>Properties of the pipeline worker\<close>

subsection \<open>What a block and a sequence of blocks leave behind\<close>

lemma stage_block_signals:
  assumes "stage_block md5 mgr stage_method path completed d inp st = (fl, st1)"
  shows "set (signals st) \<subseteq> set (signals st1)"
  using assms
  by (auto simp: stage_block_def Let_def split: if_splits prod.splits sum.splits option.splits)

lemma stage_block_invoked:
  assumes "stage_block md5 mgr stage_method path completed d inp st = (fl, st1)"
  shows "invoked st1 = invoked st
         \<or> (stage_name d \<notin> set completed \<and> invoked st1 = invoked st @ [(stage_name d, inp)])"
  using assms
  by (auto simp: stage_block_def Let_def split: if_splits prod.splits sum.splits option.splits)

text \<open>The block of a completed stage whose persisted stage data is a dictionary.\<close>

lemma stage_block_resumed:
  assumes "stage_name d \<in> set completed"
    and "get_stage_data md5 mgr (files_now st) path (stage_name d) = (Inr (Some (PyDict kvs)), env2)"
    and "stage_block md5 mgr stage_method path completed d inp st = (fl, st1)"
  shows "Progress (stage_number d) ''complete'' 100 \<in> set (signals st1)"
    and "invoked st1 = invoked st"
    and "fl = Next (case map_of kvs (payload_key d) of None \<Rightarrow> PyNone | Some v \<Rightarrow> v)
         \<or> fl = Raised TypeError"
  using assms
  by (auto simp: stage_block_def Let_def split: if_splits option.splits)

lemma run_stages_signals:
  assumes "run_stages md5 mgr stage_method cancelled_after path completed ds inp outs st
             = (fl, outs1, st1)"
  shows "set (signals st) \<subseteq> set (signals st1)"
  using assms
proof (induction ds arbitrary: inp outs st)
  case Nil
  then show ?case by simp
next
  case (Cons d ds)
  obtain f sa where b: "stage_block md5 mgr stage_method path completed d inp st = (f, sa)"
    by force
  note s = stage_block_signals [OF b]
  show ?case
  proof (cases f)
    case (Next payload)
    show ?thesis
    proof (cases "cancel_check d \<and> cancelled_after (stage_number d)")
      case True
      with Cons.prems b Next s show ?thesis by auto
    next
      case False
      with Cons.prems b Next have
        "run_stages md5 mgr stage_method cancelled_after path completed ds payload
           (outs @ [payload]) sa = (fl, outs1, st1)"
        by auto
      from Cons.IH [OF this] s show ?thesis by blast
    qed
  next
    case Cancelled
    with Cons.prems b s show ?thesis by auto
  next
    case (Raised e)
    with Cons.prems b s show ?thesis by auto
  qed
qed

text \<open>
  Every call a sequence of blocks adds is the call of a stage of the sequence that the
  checkpoint does not mark as completed.
\<close>

lemma run_stages_invoked:
  assumes "run_stages md5 mgr stage_method cancelled_after path completed ds inp outs st
             = (fl, outs1, st1)"
    and "(n, x) \<in> set (invoked st1)"
  shows "(n, x) \<in> set (invoked st) \<or> (n \<notin> set completed \<and> n \<in> stage_name ` set ds)"
  using assms
proof (induction ds arbitrary: inp outs st)
  case Nil
  then show ?case by simp
next
  case (Cons d ds)
  obtain f sa where b: "stage_block md5 mgr stage_method path completed d inp st = (f, sa)"
    by force
  note i = stage_block_invoked [OF b]
  have here: "(n, x) \<in> set (invoked st) \<or> (n \<notin> set completed \<and> n \<in> stage_name ` set (d # ds))"
    if "(n, x) \<in> set (invoked sa)"
    using i that by auto
  show ?case
  proof (cases f)
    case (Next payload)
    show ?thesis
    proof (cases "cancel_check d \<and> cancelled_after (stage_number d)")
      case True
      with Cons.prems b Next here show ?thesis by auto
    next
      case False
      with Cons.prems(1) b Next have
        "run_stages md5 mgr stage_method cancelled_after path completed ds payload
           (outs @ [payload]) sa = (fl, outs1, st1)"
        by auto
      from Cons.IH [OF this Cons.prems(2)] here show ?thesis by auto
    qed
  next
    case Cancelled
    with Cons.prems b here show ?thesis by auto
  next
    case (Raised e)
    with Cons.prems b here show ?thesis by auto
  qed
qed

text \<open>The argument with which the first stage of a sequence is called is the input.\<close>

lemma run_stages_first_input:
  assumes run: "run_stages md5 mgr stage_method cancelled_after path completed (d # ds) inp outs st
             = (fl, outs1, st1)"
    and once: "stage_name d \<notin> stage_name ` set ds"
    and called: "(stage_name d, x) \<in> set (invoked st1)"
  shows "(stage_name d, x) \<in> set (invoked st) \<or> x = inp"
proof -
  obtain f sa where b: "stage_block md5 mgr stage_method path completed d inp st = (f, sa)"
    by force
  note i = stage_block_invoked [OF b]
  have here: "(stage_name d, x) \<in> set (invoked st) \<or> x = inp"
    if "(stage_name d, x) \<in> set (invoked sa)"
    using i that by auto
  show ?thesis
  proof (cases f)
    case (Next payload)
    show ?thesis
    proof (cases "cancel_check d \<and> cancelled_after (stage_number d)")
      case True
      with run b Next called here show ?thesis by auto
    next
      case False
      with run b Next have
        "run_stages md5 mgr stage_method cancelled_after path completed ds payload
           (outs @ [payload]) sa = (fl, outs1, st1)"
        by auto
      from run_stages_invoked [OF this called] once here show ?thesis by auto
    qed
  next
    case Cancelled
    with run b called here show ?thesis by auto
  next
    case (Raised e)
    with run b called here show ?thesis by auto
  qed
qed

lemma run_stages_append:
  "run_stages md5 mgr stage_method cancelled_after path completed (xs @ ys) inp outs st =
     (case run_stages md5 mgr stage_method cancelled_after path completed xs inp outs st of
        (Next p, outs1, st1) \<Rightarrow>
          run_stages md5 mgr stage_method cancelled_after path completed ys p outs1 st1
      | (Cancelled, outs1, st1) \<Rightarrow> (Cancelled, outs1, st1)
      | (Raised e, outs1, st1) \<Rightarrow> (Raised e, outs1, st1))"
proof (induction xs arbitrary: inp outs st)
  case Nil
  show ?case by simp
next
  case (Cons d ds)
  obtain f sa where b: "stage_block md5 mgr stage_method path completed d inp st = (f, sa)"
    by force
  show ?case
  proof (cases f)
    case (Next payload)
    with b Cons [of payload "outs @ [payload]" sa] show ?thesis
      by simp
  next
    case Cancelled
    with b show ?thesis by simp
  next
    case (Raised e)
    with b show ?thesis by simp
  qed
qed

text \<open>What \<open>run\<close> adds to the state the blocks leave: signals only.\<close>

lemma run_after_stages:
  assumes "load_checkpoint md5 mgr env0 path = (Inr (Some ck), env1)"
    and "run_stages md5 mgr stage_method cancelled_after path (completed_stages ck) stage_table
           (PyStr path) [] (start_state env1 (completed_stages ck)) = (fl, outs, st2)"
  shows "invoked (run md5 mgr stage_method cancelled_after assemble path env0) = invoked st2"
    and "set (signals st2) \<subseteq> set (signals (run md5 mgr stage_method cancelled_after assemble path env0))"
  using assms
  by (auto simp: run_def handle_exception_def split: flow.splits sum.splits)

lemma stage_names_distinct: "distinct (map stage_name stage_table)"
  by (simp add: stage_table_def)

subsection \<open>Claim C2\<close>

text \<open>
  Claim C2, as stated, promises for every stage \<open>S\<close> that the checkpoint marks as
  completed that a re-run emits the 100% progress signal of \<open>S\<close>. \<open>run\<close> returns as soon
  as it finds the cancel event set after a block. With the checkpoint of \<open>a.mp4\<close> that
  marks \<open>audio_extraction\<close> and \<open>speech_recognition\<close> as completed and the cancel event
  set, the re-run emits the signal of the first stage and returns: no stage method is
  called, and the 100% signal of \<open>speech_recognition\<close> is never emitted.
\<close>

theorem C2_counterexample_cancelled:
  "fst (load_checkpoint plain_digest ckpt_dir (a_fs (Some (Stored a_checkpoint2))) ''a.mp4'')
     = Inr (Some a_checkpoint2)
   \<and> ''speech_recognition'' \<in> set (completed_stages a_checkpoint2)
   \<and> signals (run plain_digest ckpt_dir echo_stage (\<lambda>n. True) list_outputs ''a.mp4''
                (a_fs (Some (Stored a_checkpoint2))))
       = [Log ''start processing'', Log ''found checkpoint'', Progress 1 ''complete'' 100,
          Log ''resumed from checkpoint'']
   \<and> Progress 2 ''complete'' 100
       \<notin> set (signals (run plain_digest ckpt_dir echo_stage (\<lambda>n. True) list_outputs ''a.mp4''
                        (a_fs (Some (Stored a_checkpoint2)))))
   \<and> invoked (run plain_digest ckpt_dir echo_stage (\<lambda>n. True) list_outputs ''a.mp4''
                (a_fs (Some (Stored a_checkpoint2)))) = []"
proof -
  let ?env = "a_fs (Some (Stored a_checkpoint2))"
  have ex: "os_path_exists ?env ''a.mp4''"
    by (simp add: os_path_exists_def a_fs_def)
  have f: "files ?env ''ckpt/checkpoint_a.mp42048500.0.json'' = Some (Stored a_checkpoint2)"
    and r: "read_error ?env ''ckpt/checkpoint_a.mp42048500.0.json'' = None"
    and t: "clock ?env = 2000"
    by (simp_all add: a_fs_def)
  have ck: "video_hash a_checkpoint2 = ''a.mp42048500.0''" "timestamp a_checkpoint2 = 1000"
    by (simp_all add: a_checkpoint2_def a_checkpoint_def)
  have valid: "validate_checkpoint plain_digest ?env a_checkpoint2 ''a.mp4''"
    by (simp add: validate_checkpoint_def a_hash ex t ck)
  have load: "load_checkpoint plain_digest ckpt_dir ?env ''a.mp4'' = (Inr (Some a_checkpoint2), ?env)"
    using valid
    by (simp add: load_checkpoint_def load_checkpoint_try_cases a_file f r)
  have data: "get_stage_data plain_digest ckpt_dir ?env ''a.mp4'' ''audio_extraction''
      = (Inr (Some (PyDict [(''audio_path'', PyStr ''x.wav'')])), ?env)"
  proof -
    have "map_of (stage_data a_checkpoint2) ''audio_extraction''
            = Some (PyDict [(''audio_path'', PyStr ''x.wav'')])"
      by (simp add: a_checkpoint2_def)
    then show ?thesis
      by (simp add: get_stage_data_def load)
  qed
  have stages: "completed_stages a_checkpoint2 = [''audio_extraction'', ''speech_recognition'']"
    by (simp add: a_checkpoint2_def)
  have sig: "signals (run plain_digest ckpt_dir echo_stage (\<lambda>n. True) list_outputs ''a.mp4'' ?env)
       = [Log ''start processing'', Log ''found checkpoint'', Progress 1 ''complete'' 100,
          Log ''resumed from checkpoint'']"
    and inv: "invoked (run plain_digest ckpt_dir echo_stage (\<lambda>n. True) list_outputs ''a.mp4'' ?env)
       = []"
    by (simp_all add: run_def load stages stage_table_def stage_block_def start_state_def data Let_def)
  from load stages sig inv show ?thesis
    by simp
qed

text \<open>
  Claim C2, amended. Let the checkpoint that \<open>run\<close> loads mark the stage \<open>S\<close> (the
  \<open>k\<close>-th of the four) as completed. Then:

  \<^item> the run never calls the stage method of \<open>S\<close>;
  \<^item> if the run reaches the block of \<open>S\<close> (no block before it raised, and the cancel
    event was not found set after a block before it) and the stage data persisted for
    \<open>S\<close> is a dictionary then, it emits the signal \<open>progress(k, 'complete', 100)\<close> of \<open>S\<close>,
    and whenever it goes on to call the stage method of the next stage, the argument
    of that call is the payload of \<open>S\<close> in the checkpoint: the entry of the dictionary
    under the payload key of \<open>S\<close> (\<open>None\<close> when there is no such entry).
\<close>

theorem C2_resume_skips_completed_stage:
  assumes loaded: "load_checkpoint md5 mgr env0 path = (Inr (Some ck), env1)"
    and k: "k < length stage_table"
    and marked: "stage_name (stage_table ! k) \<in> set (completed_stages ck)"
  shows "(\<forall>x. (stage_name (stage_table ! k), x)
               \<notin> set (invoked (run md5 mgr stage_method cancelled_after assemble path env0)))
         \<and> (\<forall>inp outs st kvs env2.
               run_stages md5 mgr stage_method cancelled_after path (completed_stages ck)
                 (take k stage_table) (PyStr path) [] (start_state env1 (completed_stages ck))
                 = (Next inp, outs, st)
               \<and> get_stage_data md5 mgr (files_now st) path (stage_name (stage_table ! k))
                   = (Inr (Some (PyDict kvs)), env2)
               \<longrightarrow> Progress (stage_number (stage_table ! k)) ''complete'' 100
                     \<in> set (signals (run md5 mgr stage_method cancelled_after assemble path env0))
                   \<and> (\<forall>x. Suc k < length stage_table
                            \<and> (stage_name (stage_table ! Suc k), x)
                                \<in> set (invoked (run md5 mgr stage_method cancelled_after assemble
                                                  path env0))
                          \<longrightarrow> x = (case map_of kvs (payload_key (stage_table ! k)) of
                                      None \<Rightarrow> PyNone
                                    | Some v \<Rightarrow> v)))"
proof -
  let ?D = stage_table
  let ?C = "completed_stages ck"
  let ?S0 = "start_state env1 ?C"
  let ?R = "run md5 mgr stage_method cancelled_after assemble path env0"
  let ?stages = "run_stages md5 mgr stage_method cancelled_after path ?C"
  obtain fl outs2 st2 where full: "?stages ?D (PyStr path) [] ?S0 = (fl, outs2, st2)"
    using prod_cases3 by blast
  note after = run_after_stages [OF loaded full, of assemble]
  have empty: "invoked ?S0 = []"
    by (simp add: start_state_def)
  have never: "(stage_name (?D ! k), x) \<notin> set (invoked ?R)" for x
  proof
    assume "(stage_name (?D ! k), x) \<in> set (invoked ?R)"
    then have "(stage_name (?D ! k), x) \<in> set (invoked st2)"
      using after(1) by simp
    from run_stages_invoked [OF full this] empty marked show False
      by simp
  qed
  have resumed: "Progress (stage_number (?D ! k)) ''complete'' 100 \<in> set (signals ?R)
                 \<and> (\<forall>x. Suc k < length ?D \<and> (stage_name (?D ! Suc k), x) \<in> set (invoked ?R)
                        \<longrightarrow> x = (case map_of kvs (payload_key (?D ! k)) of
                                    None \<Rightarrow> PyNone
                                  | Some v \<Rightarrow> v))"
    if pre: "?stages (take k ?D) (PyStr path) [] ?S0 = (Next inp, outs, st)"
      and data: "get_stage_data md5 mgr (files_now st) path (stage_name (?D ! k))
                   = (Inr (Some (PyDict kvs)), env2)"
    for inp outs st kvs env2
  proof -
    let ?P = "case map_of kvs (payload_key (?D ! k)) of None \<Rightarrow> PyNone | Some v \<Rightarrow> v"
    have split: "?D = take k ?D @ (?D ! k) # drop (Suc k) ?D"
      using k by (rule id_take_nth_drop)
    have "?stages ?D (PyStr path) [] ?S0
        = ?stages (take k ?D @ (?D ! k) # drop (Suc k) ?D) (PyStr path) [] ?S0"
      using split by simp
    also have "\<dots> = ?stages ((?D ! k) # drop (Suc k) ?D) inp outs st"
      by (simp only: run_stages_append pre prod.case flow.case)
    finally have from_k: "?stages ((?D ! k) # drop (Suc k) ?D) inp outs st = (fl, outs2, st2)"
      using full by simp
    obtain f sa where b: "stage_block md5 mgr stage_method path ?C (?D ! k) inp st = (f, sa)"
      by force
    note blk = stage_block_resumed [OF marked data b]
    have before: "n \<in> stage_name ` set (take k ?D)" if "(n, x) \<in> set (invoked st)" for n x
      using run_stages_invoked [OF pre that] empty by simp
    have rest: "(sa = st2 \<and> (f = Raised TypeError
                     \<or> cancel_check (?D ! k) \<and> cancelled_after (stage_number (?D ! k))))
                \<or> (f = Next ?P
                    \<and> ?stages (drop (Suc k) ?D) ?P (outs @ [?P]) sa = (fl, outs2, st2))"
      using from_k b blk(3) by (auto split: if_splits)
    have sig: "set (signals sa) \<subseteq> set (signals st2)"
      using rest run_stages_signals by blast
    have progress: "Progress (stage_number (?D ! k)) ''complete'' 100 \<in> set (signals ?R)"
      using blk(1) sig after(2) by blast
    have input: "x = ?P"
      if next_stage: "Suc k < length ?D" and called: "(stage_name (?D ! Suc k), x) \<in> set (invoked ?R)"
      for x
    proof -
      have names: "map stage_name ?D
          = map stage_name (take k ?D) @ stage_name (?D ! k) # stage_name (?D ! Suc k)
            # map stage_name (drop (Suc (Suc k)) ?D)"
        using next_stage k
        by (metis Cons_nth_drop_Suc id_take_nth_drop list.simps(9) map_append)
      with stage_names_distinct have
        fresh: "stage_name (?D ! Suc k) \<notin> stage_name ` set (take k ?D)"
        and once: "stage_name (?D ! Suc k) \<notin> stage_name ` set (drop (Suc (Suc k)) ?D)"
        by auto
      have not_yet: "(stage_name (?D ! Suc k), x) \<notin> set (invoked sa)"
        using before [of "stage_name (?D ! Suc k)" x] fresh blk(2) by auto
      from called have in2: "(stage_name (?D ! Suc k), x) \<in> set (invoked st2)"
        using after(1) by simp
      from rest show ?thesis
      proof
        assume "sa = st2 \<and> (f = Raised TypeError
                     \<or> cancel_check (?D ! k) \<and> cancelled_after (stage_number (?D ! k)))"
        with in2 not_yet show ?thesis
          by simp
      next
        assume go: "f = Next ?P
                    \<and> ?stages (drop (Suc k) ?D) ?P (outs @ [?P]) sa = (fl, outs2, st2)"
        have "drop (Suc k) ?D = (?D ! Suc k) # drop (Suc (Suc k)) ?D"
          using next_stage by (simp add: Cons_nth_drop_Suc)
        with go have "?stages ((?D ! Suc k) # drop (Suc (Suc k)) ?D) ?P (outs @ [?P]) sa
                        = (fl, outs2, st2)"
          by simp
        from run_stages_first_input [OF this once in2] not_yet show ?thesis
          by simp
      qed
    qed
    from progress input show ?thesis
      by blast
  qed
  from never resumed show ?thesis
    by blast
qed

text \<open>
  The theorem at work, on the checkpoint of \<open>a.mp4\<close> that marks \<open>audio_extraction\<close> as
  completed with the payload \<open>x.wav\<close>, the cancel event never set: the re-run does not
  extract the audio again, emits \<open>progress(1, 'complete', 100)\<close>, and calls the speech
  recognition with \<open>x.wav\<close>.
\<close>

theorem C2_resume_skips_completed_stage_witness:
  "(''audio_extraction'', PyStr ''a.mp4'')
     \<notin> set (invoked (run plain_digest ckpt_dir echo_stage (\<lambda>n. False) list_outputs ''a.mp4''
                       (a_fs (Some (Stored a_checkpoint)))))
   \<and> Progress 1 ''complete'' 100
       \<in> set (signals (run plain_digest ckpt_dir echo_stage (\<lambda>n. False) list_outputs ''a.mp4''
                        (a_fs (Some (Stored a_checkpoint)))))
   \<and> invoked (run plain_digest ckpt_dir echo_stage (\<lambda>n. False) list_outputs ''a.mp4''
                (a_fs (Some (Stored a_checkpoint))))
       = [(''speech_recognition'', PyStr ''x.wav''),
          (''text_translation'', PyStr ''speech_recognition''),
          (''subtitle_generation'', PyStr ''text_translation'')]"
proof -
  let ?env = "a_fs (Some (Stored a_checkpoint))"
  let ?R = "run plain_digest ckpt_dir echo_stage (\<lambda>n. False) list_outputs ''a.mp4'' ?env"
  have ex: "os_path_exists ?env ''a.mp4''"
    by (simp add: os_path_exists_def a_fs_def)
  have f: "files ?env ''ckpt/checkpoint_a.mp42048500.0.json'' = Some (Stored a_checkpoint)"
    and r: "read_error ?env ''ckpt/checkpoint_a.mp42048500.0.json'' = None"
    and t: "clock ?env = 2000"
    by (simp_all add: a_fs_def)
  have ck: "video_hash a_checkpoint = ''a.mp42048500.0''" "timestamp a_checkpoint = 1000"
    "completed_stages a_checkpoint = [''audio_extraction'']"
    "map_of (stage_data a_checkpoint) ''audio_extraction''
       = Some (PyDict [(''audio_path'', PyStr ''x.wav'')])"
    by (simp_all add: a_checkpoint_def)
  have valid: "validate_checkpoint plain_digest ?env a_checkpoint ''a.mp4''"
    by (simp add: validate_checkpoint_def a_hash ex t ck)
  have load: "load_checkpoint plain_digest ckpt_dir ?env ''a.mp4'' = (Inr (Some a_checkpoint), ?env)"
    using valid
    by (simp add: load_checkpoint_def load_checkpoint_try_cases a_file f r)
  have data: "get_stage_data plain_digest ckpt_dir ?env ''a.mp4'' ''audio_extraction''
      = (Inr (Some (PyDict [(''audio_path'', PyStr ''x.wav'')])), ?env)"
    by (simp add: get_stage_data_def load ck)
  have first: "0 < length stage_table" "stage_name (stage_table ! 0) = ''audio_extraction''"
    "stage_number (stage_table ! 0) = 1"
    by (simp_all add: stage_table_def)
  have marked: "stage_name (stage_table ! 0) \<in> set (completed_stages a_checkpoint)"
    by (simp add: first ck)
  have pre: "run_stages plain_digest ckpt_dir echo_stage (\<lambda>n. False) ''a.mp4''
               (completed_stages a_checkpoint) (take 0 stage_table) (PyStr ''a.mp4'') []
               (start_state ?env (completed_stages a_checkpoint))
             = (Next (PyStr ''a.mp4''), [], start_state ?env (completed_stages a_checkpoint))"
    by simp
  have here: "get_stage_data plain_digest ckpt_dir
                (files_now (start_state ?env (completed_stages a_checkpoint))) ''a.mp4''
                (stage_name (stage_table ! 0))
              = (Inr (Some (PyDict [(''audio_path'', PyStr ''x.wav'')])), ?env)"
    by (simp add: start_state_def first data)
  have calls: "invoked ?R
       = [(''speech_recognition'', PyStr ''x.wav''),
          (''text_translation'', PyStr ''speech_recognition''),
          (''subtitle_generation'', PyStr ''text_translation'')]"
    by (simp add: run_def load ck stage_table_def stage_block_def start_state_def data Let_def
        echo_stage_def list_outputs_def)
  from C2_resume_skips_completed_stage [OF load first(1) marked, of echo_stage "\<lambda>n. False"
      list_outputs] pre here
  have "(''audio_extraction'', PyStr ''a.mp4'') \<notin> set (invoked ?R)"
    and "Progress 1 ''complete'' 100 \<in> set (signals ?R)"
    by (simp_all add: first)
  with calls show ?thesis
    by simp
qed

end
